theory Spec2Isabelle
  imports Main "HOL-Library.Char_ord" "HOL-Library.List_Lexorder" "HOL-Library.Multiset"
begin

section \<open>Data model (frontend/src/data/types.ts)\<close>

text \<open>
  The TypeScript types of the client. Field names carry a one-letter prefix because the
  records of one theory share a name space (and \<open>id\<close> is HOL's identity function):
  \<open>e_\<close> for \<^verbatim>\<open>Entry\<close>, \<open>p_\<close> for \<^verbatim>\<open>EntryPayload\<close>, \<open>o_\<close> for the
  \<^verbatim>\<open>id\<close> of an \<^verbatim>\<open>OutboxItem\<close>, \<open>s_\<close> for \<^verbatim>\<open>ServerEntry\<close> (data/api.ts).
  An optional field (\<^verbatim>\<open>syncStatus?\<close>, \<^verbatim>\<open>payload?\<close>, \<^verbatim>\<open>id?\<close>) is an \<open>option\<close>.
  \<^verbatim>\<open>rating: number\<close> is an \<open>int\<close>; timestamps are the ISO strings the code stores.
\<close>

datatype SyncStatus = synced | pending

record Entry =
  e_id :: string
  e_beans :: string
  e_brewMethod :: string
  e_notes :: string
  e_rating :: int
  e_brewedAt :: string
  e_createdAt :: string
  e_updatedAt :: string
  syncStatus :: "SyncStatus option"

record EntryPayload =
  p_id :: "string option"
  p_beans :: string
  p_brew_method :: string
  p_notes :: string
  p_rating :: int
  p_brewed_at :: string

datatype OutboxAction = create | update | delete

record OutboxItem =
  o_id :: string
  action :: OutboxAction
  entryId :: string
  payload :: "EntryPayload option"
  queuedAt :: string

record ServerEntry =
  s_id :: string
  s_beans :: string
  s_brew_method :: string
  s_notes :: string
  s_rating :: int
  s_brewed_at :: string
  s_created_at :: string
  s_updated_at :: string

section \<open>Remote Client adapter (data/api.ts)\<close>

text \<open>
  What \<^verbatim>\<open>fetch\<close> gives back. \<open>FetchFailed msg\<close>: the promise rejects (network error).
  \<open>Response status err body\<close>: a response arrived with this status; \<open>err\<close> is
  \<open>Some m\<close> when the body is JSON whose \<^verbatim>\<open>error\<close> member is the string \<open>m\<close>
  (what \<^verbatim>\<open>ensureOk\<close> looks for); \<open>body\<close> is \<open>Inr data\<close> when
  \<^verbatim>\<open>response.json()\<close> resolves (typed as the adapter's \<^verbatim>\<open>as T\<close> assumes) and
  \<open>Inl msg\<close> when it rejects.
\<close>

datatype 'a fetched = FetchFailed string | Response nat "string option" "string + 'a"

text \<open>
  The backend as the client sees it: one transport function per endpoint, over a server
  state \<open>'r\<close> that each request may change. Every property below is proved for an
  arbitrary such server.
\<close>

record 'r RemoteClient =
  GET_entries :: "'r \<Rightarrow> ServerEntry list fetched \<times> 'r"
  POST_entries :: "EntryPayload \<Rightarrow> 'r \<Rightarrow> ServerEntry fetched \<times> 'r"
  PUT_entry :: "string \<Rightarrow> EntryPayload \<Rightarrow> 'r \<Rightarrow> ServerEntry fetched \<times> 'r"
  DELETE_entry :: "string \<Rightarrow> 'r \<Rightarrow> unit fetched \<times> 'r"

fun digits :: "nat \<Rightarrow> string" where
  "digits n = (if n < 10 then [char_of (48 + n)] else digits (n div 10) @ [char_of (48 + n mod 10)])"

declare digits.simps [simp del]

definition response_ok :: "nat \<Rightarrow> bool" where
  "response_ok status = (200 \<le> status \<and> status \<le> 299)"

definition ensureOk :: "nat \<Rightarrow> string option \<Rightarrow> string + unit" where
  "ensureOk status err =
     (if response_ok status then Inr ()
      else Inl (case err of Some m \<Rightarrow> m
                | None \<Rightarrow> ''Request failed ('' @ digits status @ '')''))"

definition fromServer :: "ServerEntry \<Rightarrow> Entry" where
  "fromServer entry =
     \<lparr> e_id = s_id entry, e_beans = s_beans entry, e_brewMethod = s_brew_method entry,
       e_notes = s_notes entry, e_rating = s_rating entry, e_brewedAt = s_brewed_at entry,
       e_createdAt = s_created_at entry, e_updatedAt = s_updated_at entry,
       syncStatus = Some synced \<rparr>"

definition fetchEntries :: "'r RemoteClient \<Rightarrow> 'r \<Rightarrow> (string + Entry list) \<times> 'r" where
  "fetchEntries rc r =
     (case GET_entries rc r of
        (FetchFailed msg, r') \<Rightarrow> (Inl msg, r')
      | (Response status err body, r') \<Rightarrow>
          (case ensureOk status err of
             Inl msg \<Rightarrow> (Inl msg, r')
           | Inr _ \<Rightarrow>
               (case body of
                  Inl msg \<Rightarrow> (Inl msg, r')
                | Inr data \<Rightarrow> (Inr (map fromServer data), r'))))"

definition createEntry :: "'r RemoteClient \<Rightarrow> EntryPayload \<Rightarrow> 'r \<Rightarrow> (string + Entry) \<times> 'r" where
  "createEntry rc pl r =
     (case POST_entries rc pl r of
        (FetchFailed msg, r') \<Rightarrow> (Inl msg, r')
      | (Response status err body, r') \<Rightarrow>
          (case ensureOk status err of
             Inl msg \<Rightarrow> (Inl msg, r')
           | Inr _ \<Rightarrow>
               (case body of
                  Inl msg \<Rightarrow> (Inl msg, r')
                | Inr entry \<Rightarrow> (Inr (fromServer entry), r'))))"

definition updateEntry ::
  "'r RemoteClient \<Rightarrow> string \<Rightarrow> EntryPayload \<Rightarrow> 'r \<Rightarrow> (string + Entry) \<times> 'r" where
  "updateEntry rc i pl r =
     (case PUT_entry rc i pl r of
        (FetchFailed msg, r') \<Rightarrow> (Inl msg, r')
      | (Response status err body, r') \<Rightarrow>
          (case ensureOk status err of
             Inl msg \<Rightarrow> (Inl msg, r')
           | Inr _ \<Rightarrow>
               (case body of
                  Inl msg \<Rightarrow> (Inl msg, r')
                | Inr entry \<Rightarrow> (Inr (fromServer entry), r'))))"

definition deleteEntryRemote :: "'r RemoteClient \<Rightarrow> string \<Rightarrow> 'r \<Rightarrow> (string + unit) \<times> 'r" where
  "deleteEntryRemote rc i r =
     (case DELETE_entry rc i r of
        (FetchFailed msg, r') \<Rightarrow> (Inl msg, r')
      | (Response status err body, r') \<Rightarrow>
          (if status = 404 then (Inr (), r') else (ensureOk status err, r')))"

section \<open>Local Store (data/storage.ts)\<close>

text \<open>
  An IndexedDB object store with \<^verbatim>\<open>keyPath: 'id'\<close> holds at most one record per key and
  \<^verbatim>\<open>getAll()\<close> returns the records in ascending key order. It is modelled as the list
  \<^verbatim>\<open>getAll()\<close> returns: \<open>store_put\<close> replaces the record with the same key or inserts
  the new one at its place in the order. Each function of storage.ts is one transaction;
  transactions are taken to complete (\<^verbatim>\<open>tx.onerror\<close> is the storage engine failing,
  which is outside this model).
\<close>

fun store_put :: "('a \<Rightarrow> string) \<Rightarrow> 'a \<Rightarrow> 'a list \<Rightarrow> 'a list" where
  "store_put key x [] = [x]"
| "store_put key x (y # ys) =
     (if key x = key y then x # ys
      else if key x < key y then x # y # ys
      else y # store_put key x ys)"

definition store_delete :: "('a \<Rightarrow> string) \<Rightarrow> string \<Rightarrow> 'a list \<Rightarrow> 'a list" where
  "store_delete key k xs = filter (\<lambda>y. key y \<noteq> k) xs"

datatype SyncState = idle | syncing | offline

text \<open>The requests sent to the server, in order, each with whether the adapter returned normally.\<close>

datatype call =
  ListCall
| CreateCall EntryPayload
| UpdateCall string EntryPayload
| DeleteCall string

text \<open>
  The state the sync engine works on: the React state it reads and writes (\<open>token\<close>,
  \<open>syncState\<close>, \<open>error\<close>), \<^verbatim>\<open>navigator.onLine\<close>, the two object stores, the server, and
  the log of requests. The React copies \<^verbatim>\<open>entries\<close> and \<^verbatim>\<open>outbox\<close> that only feed
  the display are left out.
\<close>

record 'r world =
  token :: "string option"
  onLine :: bool
  idb_entries :: "Entry list"
  idb_outbox :: "OutboxItem list"
  syncState :: SyncState
  error :: "string option"
  server :: 'r
  calls :: "(call \<times> bool) list"

definition getAllEntries :: "'r world \<Rightarrow> Entry list" where
  "getAllEntries w = idb_entries w"

definition putEntry :: "Entry \<Rightarrow> 'r world \<Rightarrow> 'r world" where
  "putEntry entry w = w\<lparr>idb_entries := store_put e_id entry (idb_entries w)\<rparr>"

definition putEntries :: "Entry list \<Rightarrow> 'r world \<Rightarrow> 'r world" where
  "putEntries es w = w\<lparr>idb_entries := foldl (\<lambda>st entry. store_put e_id entry st) (idb_entries w) es\<rparr>"

definition deleteEntry :: "string \<Rightarrow> 'r world \<Rightarrow> 'r world" where
  "deleteEntry i w = w\<lparr>idb_entries := store_delete e_id i (idb_entries w)\<rparr>"

definition clearEntries :: "'r world \<Rightarrow> 'r world" where
  "clearEntries w = w\<lparr>idb_entries := []\<rparr>"

definition getOutboxItems :: "'r world \<Rightarrow> OutboxItem list" where
  "getOutboxItems w = idb_outbox w"

definition putOutboxItem :: "OutboxItem \<Rightarrow> 'r world \<Rightarrow> 'r world" where
  "putOutboxItem item w = w\<lparr>idb_outbox := store_put o_id item (idb_outbox w)\<rparr>"

definition deleteOutboxItem :: "string \<Rightarrow> 'r world \<Rightarrow> 'r world" where
  "deleteOutboxItem i w = w\<lparr>idb_outbox := store_delete o_id i (idb_outbox w)\<rparr>"

text \<open>
  Modelled from the spec: \<^verbatim>\<open>clearOutbox\<close> is imported by CoffeeLog.tsx from data/storage
  but the storage.ts at hand does not define it. The spec gives the Local Store
  "get-all, put, delete, clear per collection"; it is \<^verbatim>\<open>clearEntries\<close> on the other store.
\<close>

definition clearOutbox :: "'r world \<Rightarrow> 'r world" where
  "clearOutbox w = w\<lparr>idb_outbox := []\<rparr>"

section \<open>Sync engine (CoffeeLog.tsx)\<close>

definition isOK :: "string + 'a \<Rightarrow> bool" where
  "isOK res = (case res of Inl _ \<Rightarrow> False | Inr _ \<Rightarrow> True)"

text \<open>An adapter call made by the engine: it runs against the server and is logged.\<close>

definition remote ::
  "call \<Rightarrow> ('r \<Rightarrow> (string + 'a) \<times> 'r) \<Rightarrow> 'r world \<Rightarrow> (string + 'a) \<times> 'r world" where
  "remote c f w =
     (case f (server w) of
        (res, r') \<Rightarrow> (res, w\<lparr>server := r', calls := calls w @ [(c, isOK res)]\<rparr>))"

text \<open>\<^verbatim>\<open>!token\<close>: \<^verbatim>\<open>null\<close> and the empty string are falsy.\<close>

definition noToken :: "'r world \<Rightarrow> bool" where
  "noToken w = (token w = None \<or> token w = Some [])"

text \<open>
  \<^verbatim>\<open>refreshOutbox\<close>: \<^verbatim>\<open>items.sort((a, b) => a.queuedAt.localeCompare(b.queuedAt))\<close>.
  \<^verbatim>\<open>Array.prototype.sort\<close> is stable, as \<open>sort_key\<close> is. \<^verbatim>\<open>localeCompare\<close> is
  modelled by the order of the strings' characters, which is what it gives on the
  timestamps \<^verbatim>\<open>toISOString()\<close> produces.
\<close>

definition refreshOutbox :: "'r world \<Rightarrow> OutboxItem list" where
  "refreshOutbox w = sort_key queuedAt (getOutboxItems w)"

text \<open>
  The body of the \<^verbatim>\<open>try\<close> in \<^verbatim>\<open>processOutbox\<close>, statement by statement. A throw is
  \<open>Inl\<close> of the message and skips the statements after it (\<open>andThen\<close>).
\<close>

definition andThen ::
  "(string + unit) \<times> 'w \<Rightarrow> ('w \<Rightarrow> (string + unit) \<times> 'w) \<Rightarrow> (string + unit) \<times> 'w" where
  "andThen m f = (case m of (Inl msg, w) \<Rightarrow> (Inl msg, w) | (Inr _, w) \<Rightarrow> f w)"

definition replayCreate :: "'r RemoteClient \<Rightarrow> OutboxItem \<Rightarrow> 'r world \<Rightarrow> (string + unit) \<times> 'r world" where
  "replayCreate rc item w =
     (case payload item of
        Some pl \<Rightarrow>
          (if action item = create then
             (case remote (CreateCall pl) (createEntry rc pl) w of
                (Inl msg, w') \<Rightarrow> (Inl msg, w')
              | (Inr created, w') \<Rightarrow> (Inr (), putEntry (created\<lparr>syncStatus := Some synced\<rparr>) w'))
           else (Inr (), w))
      | None \<Rightarrow> (Inr (), w))"

definition replayUpdate :: "'r RemoteClient \<Rightarrow> OutboxItem \<Rightarrow> 'r world \<Rightarrow> (string + unit) \<times> 'r world" where
  "replayUpdate rc item w =
     (case payload item of
        Some pl \<Rightarrow>
          (if action item = update then
             (case remote (UpdateCall (entryId item) pl) (updateEntry rc (entryId item) pl) w of
                (Inl msg, w') \<Rightarrow> (Inl msg, w')
              | (Inr updated, w') \<Rightarrow> (Inr (), putEntry (updated\<lparr>syncStatus := Some synced\<rparr>) w'))
           else (Inr (), w))
      | None \<Rightarrow> (Inr (), w))"

definition replayDelete :: "'r RemoteClient \<Rightarrow> OutboxItem \<Rightarrow> 'r world \<Rightarrow> (string + unit) \<times> 'r world" where
  "replayDelete rc item w =
     (if action item = delete
      then remote (DeleteCall (entryId item)) (deleteEntryRemote rc (entryId item)) w
      else (Inr (), w))"

definition drainItem :: "'r RemoteClient \<Rightarrow> OutboxItem \<Rightarrow> 'r world \<Rightarrow> (string + unit) \<times> 'r world" where
  "drainItem rc item w =
     andThen (andThen (andThen (replayCreate rc item w) (replayUpdate rc item)) (replayDelete rc item))
       (\<lambda>w'. (Inr (), deleteOutboxItem (o_id item) w'))"

text \<open>The \<^verbatim>\<open>for (const item of items)\<close> loop: \<^verbatim>\<open>catch\<close> records the message and breaks.\<close>

fun drain :: "'r RemoteClient \<Rightarrow> OutboxItem list \<Rightarrow> 'r world \<Rightarrow> 'r world" where
  "drain rc [] w = w"
| "drain rc (item # items) w =
     (case drainItem rc item w of
        (Inl msg, w') \<Rightarrow> w'\<lparr>error := Some msg\<rparr>
      | (Inr _, w') \<Rightarrow> drain rc items w')"

definition processOutbox :: "'r RemoteClient \<Rightarrow> 'r world \<Rightarrow> 'r world" where
  "processOutbox rc w = (if noToken w then w else drain rc (refreshOutbox w) w)"

text \<open>
  A JavaScript \<^verbatim>\<open>Map\<close> keeps its keys in insertion order; \<^verbatim>\<open>set\<close> on a key that is
  present replaces the value in place. \<^verbatim>\<open>new Map(pairs)\<close> sets the pairs in turn.
\<close>

fun Map_set :: "string \<Rightarrow> 'v \<Rightarrow> (string \<times> 'v) list \<Rightarrow> (string \<times> 'v) list" where
  "Map_set k v [] = [(k, v)]"
| "Map_set k v ((k', v') # m) = (if k' = k then (k, v) # m else (k', v') # Map_set k v m)"

definition new_Map :: "(string \<times> 'v) list \<Rightarrow> (string \<times> 'v) list" where
  "new_Map pairs = foldl (\<lambda>m (k, v). Map_set k v m) [] pairs"

definition Map_get :: "(string \<times> 'v) list \<Rightarrow> string \<Rightarrow> 'v option" where
  "Map_get m k = map_of m k"

text \<open>
  The merge inside \<^verbatim>\<open>syncFromServer\<close> (from \<^verbatim>\<open>const pending = new Map(...)\<close> to the end
  of \<^verbatim>\<open>pending.forEach\<close>), as a function of the two listings.
\<close>

definition pendingMap :: "Entry list \<Rightarrow> (string \<times> Entry) list" where
  "pendingMap localEntries =
     new_Map (map (\<lambda>entry. (e_id entry, entry))
                (filter (\<lambda>entry. syncStatus entry = Some pending) localEntries))"

definition mergeEntries :: "Entry list \<Rightarrow> Entry list \<Rightarrow> Entry list" where
  "mergeEntries localEntries remoteEntries =
     (let pend = pendingMap localEntries;
          merged = map (\<lambda>entry. case Map_get pend (e_id entry) of
                                    Some pendingEntry \<Rightarrow> pendingEntry
                                  | None \<Rightarrow> entry) remoteEntries
      in foldl (\<lambda>merged (k, entry).
                  if find (\<lambda>item. e_id item = e_id entry) merged = None
                  then merged @ [entry] else merged)
           merged pend)"

definition syncFromServer :: "'r RemoteClient \<Rightarrow> 'r world \<Rightarrow> (string + unit) \<times> 'r world" where
  "syncFromServer rc w =
     (let localEntries = getAllEntries w in
      case remote ListCall (fetchEntries rc) w of
        (Inl msg, w') \<Rightarrow> (Inl msg, w')
      | (Inr remoteEntries, w') \<Rightarrow>
          (Inr (), putEntries (mergeEntries localEntries remoteEntries) (clearEntries w')))"

text \<open>
  \<^verbatim>\<open>runSync\<close>. The \<^verbatim>\<open>await refreshOutbox()\<close> after the reconcile only renews the display's
  copy of the outbox, so it leaves this state as it is.
\<close>

definition runSync :: "'r RemoteClient \<Rightarrow> 'r world \<Rightarrow> 'r world" where
  "runSync rc w =
     (if noToken w then w
      else if \<not> onLine w then w\<lparr>syncState := offline\<rparr>
      else
        (case syncFromServer rc (processOutbox rc (w\<lparr>syncState := syncing, error := None\<rparr>)) of
           (Inl msg, w') \<Rightarrow> w'\<lparr>error := Some msg, syncState := offline\<rparr>
         | (Inr _, w') \<Rightarrow> w'\<lparr>syncState := idle\<rparr>))"

text \<open>
  \<^verbatim>\<open>handleLogout\<close>: the token is dropped and both object stores are cleared.
\<close>

definition handleLogout :: "'r world \<Rightarrow> 'r world" where
  "handleLogout w = clearOutbox (clearEntries (w\<lparr>token := None\<rparr>))"

text \<open>
  The successive states of the world at the \<^verbatim>\<open>await\<close>s of \<^verbatim>\<open>syncFromServer\<close>: before
  the listing request, after it, after the \<^verbatim>\<open>clearEntries\<close> transaction and after the
  \<^verbatim>\<open>putEntries\<close> transaction. Another task of the event loop that reads the store
  meanwhile (its \<^verbatim>\<open>getAll\<close> is a transaction of its own) sees the entries of one of
  these states.
\<close>

definition syncFromServer_trace :: "'r RemoteClient \<Rightarrow> 'r world \<Rightarrow> 'r world list" where
  "syncFromServer_trace rc w =
     (let localEntries = getAllEntries w in
      case remote ListCall (fetchEntries rc) w of
        (Inl msg, w') \<Rightarrow> [w, w']
      | (Inr remoteEntries, w') \<Rightarrow>
          [w, w', clearEntries w',
           putEntries (mergeEntries localEntries remoteEntries) (clearEntries w')])"

subsection \<open>Two sync requests in flight\<close>

text \<open>
  \<^verbatim>\<open>runSync\<close> does not look at \<^verbatim>\<open>syncState\<close> before it starts, so a second request
  made while the first pass is suspended at an \<^verbatim>\<open>await\<close> starts a pass of its own.
  Each pass reads the outbox once (\<^verbatim>\<open>const items = await refreshOutbox()\<close>) and then
  walks its own copy. \<open>drainStep\<close> is one turn of the \<^verbatim>\<open>for\<close> loop of a pass that still
  has \<open>items\<close> to go (after \<^verbatim>\<open>break\<close> nothing is left); \<open>twoDrains\<close> runs the loops of
  two passes under a schedule that says which pass takes the next turn (\<open>True\<close>: the
  first), and lets both run to their end when the schedule is used up.
\<close>

fun drainStep :: "'r RemoteClient \<Rightarrow> OutboxItem list \<Rightarrow> 'r world \<Rightarrow> OutboxItem list \<times> 'r world" where
  "drainStep rc [] w = ([], w)"
| "drainStep rc (item # items) w =
     (case drainItem rc item w of
        (Inl msg, w') \<Rightarrow> ([], w'\<lparr>error := Some msg\<rparr>)
      | (Inr _, w') \<Rightarrow> (items, w'))"

fun twoDrains ::
  "'r RemoteClient \<Rightarrow> bool list \<Rightarrow> OutboxItem list \<Rightarrow> OutboxItem list \<Rightarrow> 'r world \<Rightarrow> 'r world" where
  "twoDrains rc [] itemsA itemsB w = drain rc itemsB (drain rc itemsA w)"
| "twoDrains rc (first # sched) itemsA itemsB w =
     (if first
      then (case drainStep rc itemsA w of (itemsA', w') \<Rightarrow> twoDrains rc sched itemsA' itemsB w')
      else (case drainStep rc itemsB w of (itemsB', w') \<Rightarrow> twoDrains rc sched itemsA itemsB' w'))"

text \<open>
  Two requests back to back: each runs \<^verbatim>\<open>runSync\<close> up to the outbox read of
  \<^verbatim>\<open>processOutbox\<close> (the guards, \<^verbatim>\<open>setSyncState('syncing')\<close>, \<^verbatim>\<open>setError(null)\<close>) before
  either has sent a request, so both read the same outbox; then the two drains run.
\<close>

definition twoSyncRequests :: "'r RemoteClient \<Rightarrow> bool list \<Rightarrow> 'r world \<Rightarrow> 'r world" where
  "twoSyncRequests rc sched w =
     (if noToken w then w
      else if \<not> onLine w then w\<lparr>syncState := offline\<rparr>
      else (let w1 = w\<lparr>syncState := syncing, error := None\<rparr>;
                itemsA = refreshOutbox w1;
                w2 = w1\<lparr>syncState := syncing, error := None\<rparr>;
                itemsB = refreshOutbox w2
            in twoDrains rc sched itemsA itemsB w2))"

section \<open>Backend (backend/main.go)\<close>

text \<open>
  main.go is there in two versions: one keeps the entries in a JSON file behind
  \<^verbatim>\<open>Store\<close>, the other in a Postgres table. Both use the structs \<^verbatim>\<open>Entry\<close> (here
  \<open>GoEntry\<close>, the wire format that api.ts calls \<^verbatim>\<open>ServerEntry\<close>) and \<^verbatim>\<open>EntryInput\<close>.
\<close>

record GoEntry =
  ID :: string
  Beans :: string
  BrewMethod :: string
  Notes :: string
  Rating :: int
  BrewedAt :: string
  CreatedAt :: string
  UpdatedAt :: string

record EntryInput =
  in_ID :: string
  in_Beans :: string
  in_BrewMethod :: string
  in_Notes :: string
  in_Rating :: int
  in_BrewedAt :: string

text \<open>
  \<^verbatim>\<open>normalizeID\<close>. A \<open>char\<close> is a byte, so the model is exact on ASCII text; bytes above
  127 (parts of a longer rune, where Go asks \<^verbatim>\<open>unicode.IsLetter\<close> and
  \<^verbatim>\<open>unicode.IsDigit\<close> about the rune) are taken to be no letter and no digit.
\<close>

definition isSpace :: "char \<Rightarrow> bool" where
  "isSpace c = (of_char c \<in> {9, 10, 11, 12, 13, 32 :: nat})"

definition TrimSpace :: "string \<Rightarrow> string" where
  "TrimSpace raw = rev (dropWhile isSpace (rev (dropWhile isSpace raw)))"

definition idRune :: "char \<Rightarrow> bool" where
  "idRune c =
     (let n = (of_char c :: nat)
      in (65 \<le> n \<and> n \<le> 90) \<or> (97 \<le> n \<and> n \<le> 122) \<or> (48 \<le> n \<and> n \<le> 57) \<or>
         c = CHR ''-'' \<or> c = CHR ''_'')"

definition normalizeID :: "string \<Rightarrow> string + string" where
  "normalizeID raw =
     (let i = TrimSpace raw
      in if i = [] then Inr []
         else if list_all idRune i then Inr i
         else Inl ''id contains invalid characters'')"

text \<open>The three outcomes of an update: \<^verbatim>\<open>(Entry{}, false, nil)\<close>, \<^verbatim>\<open>(entry, true, nil)\<close>, an error.\<close>

datatype 'a found = NotFound | Found 'a | Failed string

subsection \<open>The file-backed Store\<close>

text \<open>
  \<^verbatim>\<open>Store.entries\<close> is the state (the mutex serialises the methods). What the code takes
  from its environment is a parameter: \<open>now\<close> for
  \<^verbatim>\<open>time.Now().UTC().Format(time.RFC3339)\<close>, \<open>fresh\<close> for \<^verbatim>\<open>newID()\<close>, \<open>saved\<close> for
  whether \<^verbatim>\<open>s.save()\<close> returns no error.
\<close>

type_synonym Store = "GoEntry list"

definition Store_List :: "Store \<Rightarrow> GoEntry list" where
  "Store_List s = s"

definition Store_Create :: "string \<Rightarrow> string \<Rightarrow> bool \<Rightarrow> EntryInput \<Rightarrow> Store \<Rightarrow> (string + GoEntry) \<times> Store" where
  "Store_Create now fresh saved input s =
     (case normalizeID (in_ID input) of
        Inl err \<Rightarrow> (Inl err, s)
      | Inr i \<Rightarrow>
          (let entry = \<lparr> ID = (if i = [] then fresh else i), Beans = in_Beans input,
                          BrewMethod = in_BrewMethod input, Notes = in_Notes input,
                          Rating = in_Rating input, BrewedAt = in_BrewedAt input,
                          CreatedAt = now, UpdatedAt = now \<rparr>
           in if saved then (Inr entry, s @ [entry]) else (Inl ''save failed'', s @ [entry])))"

fun Store_Update :: "string \<Rightarrow> bool \<Rightarrow> string \<Rightarrow> EntryInput \<Rightarrow> Store \<Rightarrow> GoEntry found \<times> Store" where
  "Store_Update now saved i input [] = (NotFound, [])"
| "Store_Update now saved i input (entry # rest) =
     (if ID entry \<noteq> i
      then (case Store_Update now saved i input rest of (res, rest') \<Rightarrow> (res, entry # rest'))
      else (let entry' = entry\<lparr>Beans := in_Beans input, BrewMethod := in_BrewMethod input,
                               Notes := in_Notes input, Rating := in_Rating input,
                               BrewedAt := in_BrewedAt input, UpdatedAt := now\<rparr>
            in (if saved then Found entry' else Failed ''save failed'', entry' # rest)))"

subsection \<open>The Postgres-backed functions\<close>

text \<open>
  A row of the table \<^verbatim>\<open>entries\<close> (migrations); a \<^verbatim>\<open>timestamptz\<close> is an instant, an
  \<open>int\<close>. The table is the list of its rows. The environment of a query is a record:
  whether the statement and the read-back succeed, Go's \<^verbatim>\<open>time.Parse(time.RFC3339, _)\<close>
  (its error is dropped by the code) and \<^verbatim>\<open>t.UTC().Format(time.RFC3339)\<close>, and
  \<^verbatim>\<open>time.Now()\<close>. The SQL statements are modelled by what they say: \<^verbatim>\<open>WHERE\<close> is a
  filter, \<^verbatim>\<open>UPDATE ... SET\<close> rewrites the matching rows in place, \<^verbatim>\<open>ORDER BY brewed_at
  DESC\<close> is a sort by descending instant (rows with the same instant keep their table
  order, one of the orders the database may choose).
\<close>

record Row =
  r_id :: string
  r_user_id :: string
  r_beans :: string
  r_brew_method :: string
  r_notes :: string
  r_rating :: int
  r_brewed_at :: int
  r_created_at :: int
  r_updated_at :: int

record Env =
  exec_ok :: bool
  scan_ok :: bool
  parseTime :: "string \<Rightarrow> int"
  formatTime :: "int \<Rightarrow> string"
  timeNow :: int

definition scanEntry :: "Env \<Rightarrow> Row \<Rightarrow> GoEntry" where
  "scanEntry env row =
     \<lparr> ID = r_id row, Beans = r_beans row, BrewMethod = r_brew_method row, Notes = r_notes row,
       Rating = r_rating row, BrewedAt = formatTime env (r_brewed_at row),
       CreatedAt = formatTime env (r_created_at row),
       UpdatedAt = formatTime env (r_updated_at row) \<rparr>"

definition listEntries_rows :: "string \<Rightarrow> Row list \<Rightarrow> Row list" where
  "listEntries_rows userID tbl =
     sort_key (\<lambda>row. - r_brewed_at row) (filter (\<lambda>row. r_user_id row = userID) tbl)"

definition listEntries :: "Env \<Rightarrow> string \<Rightarrow> Row list \<Rightarrow> string + GoEntry list" where
  "listEntries env userID tbl =
     (if \<not> exec_ok env then Inl ''failed to load entries''
      else Inr (map (scanEntry env) (listEntries_rows userID tbl)))"

definition updateEntry_go ::
  "Env \<Rightarrow> string \<Rightarrow> string \<Rightarrow> EntryInput \<Rightarrow> Row list \<Rightarrow> GoEntry found \<times> Row list" where
  "updateEntry_go env userID raw input tbl =
     (case normalizeID raw of
        Inl err \<Rightarrow> (Failed err, tbl)
      | Inr i \<Rightarrow>
          (let brewed = parseTime env (in_BrewedAt input);
               updated = timeNow env
           in if \<not> exec_ok env then (Failed ''failed to update entry'', tbl)
              else
                (let hit = (\<lambda>row. r_user_id row = userID \<and> r_id row = i);
                     tbl' = map (\<lambda>row. if hit row
                                        then row\<lparr>r_beans := in_Beans input,
                                                 r_brew_method := in_BrewMethod input,
                                                 r_notes := in_Notes input,
                                                 r_rating := in_Rating input,
                                                 r_brewed_at := brewed, r_updated_at := updated\<rparr>
                                        else row) tbl
                 in if length (filter hit tbl) = 0 then (NotFound, tbl')
                    else
                      (let created = (if scan_ok env
                                      then (case find hit tbl' of
                                              Some row \<Rightarrow> r_created_at row
                                            | None \<Rightarrow> updated)
                                      else updated)
                       in (Found \<lparr> ID = i, Beans = in_Beans input,
                                    BrewMethod = in_BrewMethod input, Notes = in_Notes input,
                                    Rating = in_Rating input, BrewedAt = formatTime env brewed,
                                    CreatedAt = formatTime env created,
                                    UpdatedAt = formatTime env updated \<rparr>, tbl')))))"

section \<open>Vocabulary for the statements\<close>

text \<open>
  The request that replaying an outbox item sends: one for a \<^verbatim>\<open>delete\<close> and for a
  \<^verbatim>\<open>create\<close> or \<^verbatim>\<open>update\<close> that carries its payload, none otherwise (the two
  \<^verbatim>\<open>&& item.payload\<close> guards of \<^verbatim>\<open>processOutbox\<close>).
\<close>

definition item_call :: "OutboxItem \<Rightarrow> call list" where
  "item_call item =
     (case action item of
        create \<Rightarrow> (case payload item of Some pl \<Rightarrow> [CreateCall pl] | None \<Rightarrow> [])
      | update \<Rightarrow> (case payload item of Some pl \<Rightarrow> [UpdateCall (entryId item) pl] | None \<Rightarrow> [])
      | delete \<Rightarrow> [DeleteCall (entryId item)])"

text \<open>The log entries of a run of items whose requests all had the outcome \<open>ok\<close>.\<close>

definition logged :: "bool \<Rightarrow> OutboxItem list \<Rightarrow> (call \<times> bool) list" where
  "logged ok items = map (\<lambda>c. (c, ok)) (concat (map item_call items))"

text \<open>The state a pass is in after its drain step: \<^verbatim>\<open>runSync\<close> up to \<^verbatim>\<open>await processOutbox()\<close>.\<close>

definition afterDrain :: "'r RemoteClient \<Rightarrow> 'r world \<Rightarrow> 'r world" where
  "afterDrain rc w = processOutbox rc (w\<lparr>syncState := syncing, error := None\<rparr>)"

text \<open>The part of the request log that a run added.\<close>

definition newCalls :: "'r world \<Rightarrow> 'r world \<Rightarrow> (call \<times> bool) list" where
  "newCalls w w' = drop (length (calls w)) (calls w')"

text \<open>A server whose adapter calls for create, update and delete always return normally.\<close>

definition accepts :: "'r RemoteClient \<Rightarrow> bool" where
  "accepts rc =
     ((\<forall>pl r. isOK (fst (createEntry rc pl r))) \<and>
      (\<forall>i pl r. isOK (fst (updateEntry rc i pl r))) \<and>
      (\<forall>i r. isOK (fst (deleteEntryRemote rc i r))))"

section \<open>Servers for the concrete runs\<close>

text \<open>
  \<open>downServer\<close>: no request gets through. \<open>memServer\<close>: a small in-memory backend
  answering as the Go handlers do (201 on create, 400 with a message when \<^verbatim>\<open>beans\<close> is
  empty, 200 on update, 204 on delete, 404 for an id it does not have).
\<close>

definition downServer :: "unit RemoteClient" where
  "downServer =
     \<lparr> GET_entries = (\<lambda>r. (FetchFailed ''Failed to fetch'', r)),
       POST_entries = (\<lambda>pl r. (FetchFailed ''Failed to fetch'', r)),
       PUT_entry = (\<lambda>i pl r. (FetchFailed ''Failed to fetch'', r)),
       DELETE_entry = (\<lambda>i r. (FetchFailed ''Failed to fetch'', r)) \<rparr>"

definition stored :: "string \<Rightarrow> EntryPayload \<Rightarrow> ServerEntry" where
  "stored i pl =
     \<lparr> s_id = i, s_beans = p_beans pl, s_brew_method = p_brew_method pl, s_notes = p_notes pl,
       s_rating = p_rating pl, s_brewed_at = p_brewed_at pl,
       s_created_at = ''2024-05-01T09:00:00Z'', s_updated_at = ''2024-05-01T09:00:00Z'' \<rparr>"

definition memServer :: "ServerEntry list RemoteClient" where
  "memServer =
     \<lparr> GET_entries = (\<lambda>r. (Response 200 None (Inr r), r)),
       POST_entries = (\<lambda>pl r.
         if p_beans pl = [] then (Response 400 (Some ''beans is required'') (Inl ''no entry''), r)
         else (let i = (case p_id pl of Some i \<Rightarrow> i | None \<Rightarrow> ''srv-1'')
               in (Response 201 None (Inr (stored i pl)),
                   filter (\<lambda>e. s_id e \<noteq> i) r @ [stored i pl]))),
       PUT_entry = (\<lambda>i pl r.
         if i \<in> s_id ` set r
         then (Response 200 None (Inr (stored i pl)),
               map (\<lambda>e. if s_id e = i then stored i pl else e) r)
         else (Response 404 (Some ''entry not found'') (Inl ''no entry''), r)),
       DELETE_entry = (\<lambda>i r.
         if i \<in> s_id ` set r
         then (Response 204 None (Inr ()), filter (\<lambda>e. s_id e \<noteq> i) r)
         else (Response 404 (Some ''entry not found'') (Inl ''no body''), r)) \<rparr>"

definition payload1 :: EntryPayload where
  "payload1 =
     \<lparr> p_id = Some ''x1'', p_beans = ''Yirgacheffe'', p_brew_method = ''pour_over'',
       p_notes = ''local'', p_rating = 4, p_brewed_at = ''2024-05-01T08:00:00Z'' \<rparr>"

definition entry1 :: Entry where
  "entry1 =
     \<lparr> e_id = ''x1'', e_beans = ''Yirgacheffe'', e_brewMethod = ''pour_over'',
       e_notes = ''local'', e_rating = 4, e_brewedAt = ''2024-05-01T08:00:00Z'',
       e_createdAt = ''2024-05-01T08:00:01Z'', e_updatedAt = ''2024-05-01T08:00:01Z'',
       syncStatus = Some pending \<rparr>"

definition item1 :: OutboxItem where
  "item1 = \<lparr> o_id = ''q1'', action = create, entryId = ''x1'', payload = Some payload1,
             queuedAt = ''2024-05-01T08:00:01.000Z'' \<rparr>"

definition item2 :: OutboxItem where
  "item2 = \<lparr> o_id = ''q2'', action = update, entryId = ''x1'',
             payload = Some (payload1\<lparr>p_notes := ''edited''\<rparr>),
             queuedAt = ''2024-05-01T08:00:02.000Z'' \<rparr>"

definition item3 :: OutboxItem where
  "item3 = \<lparr> o_id = ''q3'', action = delete, entryId = ''e1'', payload = None,
             queuedAt = ''2024-05-01T08:00:03.000Z'' \<rparr>"

definition world0 :: "'r \<Rightarrow> 'r world" where
  "world0 r =
     \<lparr> token = Some ''jwt'', onLine = True, idb_entries = [], idb_outbox = [],
       syncState = idle, error = None, server = r, calls = [] \<rparr>"

definition remoteOld :: Entry where
  "remoteOld = fromServer (stored ''x1'' (payload1\<lparr>p_notes := ''remote-old''\<rparr>))"

definition remoteOther :: Entry where
  "remoteOther = fromServer (stored ''e2'' payload1)"

definition item4 :: OutboxItem where
  "item4 = \<lparr> o_id = ''q4'', action = delete, entryId = ''e2'', payload = None,
             queuedAt = ''2024-05-01T08:00:03.000Z'' \<rparr>"

definition badItem :: OutboxItem where
  "badItem = \<lparr> o_id = ''q0'', action = create, entryId = ''x0'',
               payload = Some (payload1\<lparr>p_id := Some ''x0'', p_beans := []\<rparr>),
               queuedAt = ''2024-05-01T08:00:02.500Z'' \<rparr>"

definition world5 :: "ServerEntry list world" where
  "world5 = (world0 [])\<lparr>idb_entries := [entry1], idb_outbox := [badItem, item1, item3]\<rparr>"

definition worldTie :: "ServerEntry list world" where
  "worldTie = (world0 [])\<lparr>idb_outbox := [item3, item4]\<rparr>"

definition worldC :: "ServerEntry list world" where
  "worldC = world5\<lparr>server := [stored ''e2'' payload1]\<rparr>"

definition worldL :: "ServerEntry list world" where
  "worldL = (world0 [])\<lparr>idb_entries := [entry1], idb_outbox := [item1]\<rparr>"

definition worldN :: "ServerEntry list world" where
  "worldN = (world0 [])\<lparr>idb_outbox := [item1\<lparr>payload := None\<rparr>]\<rparr>"

definition worldD :: "unit world" where
  "worldD = (world0 ())\<lparr>idb_entries := [entry1], idb_outbox := [item1]\<rparr>"

definition okServer :: "unit RemoteClient" where
  "okServer =
     \<lparr> GET_entries = (\<lambda>r. (Response 200 None (Inr []), r)),
       POST_entries = (\<lambda>pl r. (Response 201 None
                          (Inr (stored (case p_id pl of Some i \<Rightarrow> i | None \<Rightarrow> ''srv-1'') pl)), r)),
       PUT_entry = (\<lambda>i pl r. (Response 200 None (Inr (stored i pl)), r)),
       DELETE_entry = (\<lambda>i r. (Response 204 None (Inr ()), r)) \<rparr>"

definition worldQ :: "'r \<Rightarrow> 'r world" where
  "worldQ r = (world0 r)\<lparr>idb_entries := [entry1], idb_outbox := [item1, item2]\<rparr>"

definition worldR :: "ServerEntry list world" where
  "worldR = (world0 [stored ''e2'' payload1])\<lparr>idb_entries := [entry1]\<rparr>"

definition input1 :: EntryInput where
  "input1 = \<lparr> in_ID = ''a1'', in_Beans = ''Kenya'', in_BrewMethod = ''drip'', in_Notes = [],
               in_Rating = 3, in_BrewedAt = ''2024-01-01T08:00:00Z'' \<rparr>"

definition input2 :: EntryInput where
  "input2 = \<lparr> in_ID = ''a2'', in_Beans = ''Peru'', in_BrewMethod = ''espresso'', in_Notes = [],
               in_Rating = 5, in_BrewedAt = ''2024-02-01T08:00:00Z'' \<rparr>"

definition store2 :: Store where
  "store2 = snd (Store_Create ''2024-03-01T10:00:01Z'' ''f2'' True input2
              (snd (Store_Create ''2024-03-01T10:00:00Z'' ''f1'' True input1 [])))"

text \<open>A stand-in for Go's time formatting and parsing in the concrete runs: instants print as a number.\<close>

definition env1 :: Env where
  "env1 = \<lparr> exec_ok = True, scan_ok = True, parseTime = (\<lambda>s. 50),
             formatTime = (\<lambda>t. digits (nat t)), timeNow = 200 \<rparr>"

definition row1 :: Row where
  "row1 = \<lparr> r_id = ''a1'', r_user_id = ''u1'', r_beans = ''Kenya'', r_brew_method = ''drip'',
             r_notes = [], r_rating = 3, r_brewed_at = 10, r_created_at = 100, r_updated_at = 100 \<rparr>"

definition row2 :: Row where
  "row2 = \<lparr> r_id = ''a2'', r_user_id = ''u1'', r_beans = ''Peru'', r_brew_method = ''espresso'',
             r_notes = [], r_rating = 5, r_brewed_at = 20, r_created_at = 110, r_updated_at = 110 \<rparr>"

section \<open>Helper facts about the adapter, the stores and the drain\<close>

lemma fromServer_synced: "syncStatus (fromServer entry) = Some synced"
  by (simp add: fromServer_def)

lemma fetchEntries_synced:
  "fetchEntries rc r = (Inr es, r') \<Longrightarrow> entry \<in> set es \<Longrightarrow> syncStatus entry = Some synced"
  by (auto simp: fetchEntries_def fromServer_synced split: prod.splits fetched.splits sum.splits)

lemma createEntry_synced: "createEntry rc pl r = (Inr entry, r') \<Longrightarrow> syncStatus entry = Some synced"
  by (auto simp: createEntry_def fromServer_synced split: prod.splits fetched.splits sum.splits)

lemma updateEntry_synced: "updateEntry rc i pl r = (Inr entry, r') \<Longrightarrow> syncStatus entry = Some synced"
  by (auto simp: updateEntry_def fromServer_synced split: prod.splits fetched.splits sum.splits)

lemma set_store_put: "set (store_put key x xs) \<subseteq> insert x (set xs)"
  by (induction xs) auto

lemma set_store_delete: "set (store_delete key k xs) \<subseteq> set xs"
  by (auto simp: store_delete_def)


lemma remote_entries: "remote c f w = (res, w') \<Longrightarrow> idb_entries w' = idb_entries w"
  by (auto simp: remote_def split: prod.splits)

lemma in_store_put: "y \<in> set (store_put key x xs) \<Longrightarrow> y = x \<or> y \<in> set xs"
  using set_store_put [of key x xs] by auto

lemma replayCreate_entries:
  "replayCreate rc item w = (res, w') \<Longrightarrow> entry \<in> set (idb_entries w') \<Longrightarrow>
   entry \<in> set (idb_entries w) \<or> syncStatus entry = Some synced"
  by (auto simp: replayCreate_def putEntry_def split: option.splits if_splits prod.splits sum.splits dest!: remote_entries in_store_put)

lemma replayUpdate_entries:
  "replayUpdate rc item w = (res, w') \<Longrightarrow> entry \<in> set (idb_entries w') \<Longrightarrow>
   entry \<in> set (idb_entries w) \<or> syncStatus entry = Some synced"
  by (auto simp: replayUpdate_def putEntry_def split: option.splits if_splits prod.splits sum.splits dest!: remote_entries in_store_put)

lemma replayDelete_entries: "replayDelete rc item w = (res, w') \<Longrightarrow> idb_entries w' = idb_entries w"
  by (auto simp: replayDelete_def split: if_splits dest: remote_entries)

lemma drainItem_entries:
  assumes "drainItem rc item w = (res, w')" and "entry \<in> set (idb_entries w')"
  shows "entry \<in> set (idb_entries w) \<or> syncStatus entry = Some synced"
proof -
  obtain r1 w1 where s1: "replayCreate rc item w = (r1, w1)" by force
  obtain r2 w2 where s2: "andThen (r1, w1) (replayUpdate rc item) = (r2, w2)" by force
  obtain r3 w3 where s3: "andThen (r2, w2) (replayDelete rc item) = (r3, w3)" by force
  have e3: "idb_entries w' = idb_entries w3"
    using assms(1) s1 s2 s3 by (auto simp: drainItem_def andThen_def deleteOutboxItem_def split: sum.splits)
  have e32: "idb_entries w3 = idb_entries w2"
    using s3 by (auto simp: andThen_def split: sum.splits dest: replayDelete_entries)
  have "entry \<in> set (idb_entries w2) \<Longrightarrow> entry \<in> set (idb_entries w1) \<or> syncStatus entry = Some synced"
    using s2 by (auto simp: andThen_def split: sum.splits dest: replayUpdate_entries)
  with e3 e32 assms(2) replayCreate_entries [OF s1] show ?thesis by auto
qed

lemma drain_entries:
  "entry \<in> set (idb_entries (drain rc items w)) \<Longrightarrow>
   entry \<in> set (idb_entries w) \<or> syncStatus entry = Some synced"
proof (induction items arbitrary: w)
  case Nil
  then show ?case by simp
next
  case (Cons item items)
  obtain res w' where s: "drainItem rc item w = (res, w')" by force
  show ?case
  proof (cases res)
    case (Inl msg)
    with s Cons.prems have "entry \<in> set (idb_entries w')" by simp
    with drainItem_entries [OF s] show ?thesis by blast
  next
    case (Inr u)
    with s Cons.prems have "entry \<in> set (idb_entries (drain rc items w'))" by simp
    with Cons.IH have "entry \<in> set (idb_entries w') \<or> syncStatus entry = Some synced" by blast
    with drainItem_entries [OF s] show ?thesis by blast
  qed
qed

section \<open>Entries produced by the adapter and written by the drain are synced\<close>

text \<open>
  C10. Every entry that \<^verbatim>\<open>fetchEntries\<close>, \<^verbatim>\<open>createEntry\<close> or \<^verbatim>\<open>updateEntry\<close> returns
  carries \<^verbatim>\<open>syncStatus: 'synced'\<close>, whatever the server answers. And the drain never
  writes a pending entry: every entry of the Local Store after \<^verbatim>\<open>processOutbox\<close> either
  was in the store before or has \<^verbatim>\<open>syncStatus: 'synced'\<close>.
\<close>

theorem adapter_and_drain_entries_synced:
  "(fetchEntries rc r = (Inr es, r') \<longrightarrow> (\<forall>entry \<in> set es. syncStatus entry = Some synced)) \<and>
   (createEntry rc pl r = (Inr created, r1) \<longrightarrow> syncStatus created = Some synced) \<and>
   (updateEntry rc i pl r = (Inr updated, r2) \<longrightarrow> syncStatus updated = Some synced) \<and>
   (\<forall>entry \<in> set (idb_entries (processOutbox rc w)).
      entry \<in> set (idb_entries w) \<or> syncStatus entry = Some synced)"
proof (intro conjI impI ballI)
  fix entry assume "fetchEntries rc r = (Inr es, r')" and "entry \<in> set es"
  then show "syncStatus entry = Some synced" by (rule fetchEntries_synced)
next
  assume "createEntry rc pl r = (Inr created, r1)"
  then show "syncStatus created = Some synced" by (rule createEntry_synced)
next
  assume "updateEntry rc i pl r = (Inr updated, r2)"
  then show "syncStatus updated = Some synced" by (rule updateEntry_synced)
next
  fix entry assume "entry \<in> set (idb_entries (processOutbox rc w))"
  then show "entry \<in> set (idb_entries w) \<or> syncStatus entry = Some synced"
    by (auto simp: processOutbox_def split: if_splits dest: drain_entries)
qed

lemma memServer_create_run:
  "createEntry memServer payload1 [] = (Inr (fromServer (stored ''x1'' payload1)), [stored ''x1'' payload1])"
  by code_simp

lemma memServer_update_run:
  "updateEntry memServer ''x1'' payload1 [stored ''x1'' payload1]
     = (Inr (fromServer (stored ''x1'' payload1)), [stored ''x1'' payload1])"
  by code_simp

lemma memServer_list_run:
  "fetchEntries memServer [stored ''x1'' payload1]
     = (Inr [fromServer (stored ''x1'' payload1)], [stored ''x1'' payload1])"
  by code_simp

lemma drain_create_run:
  "idb_entries (processOutbox memServer ((world0 [])\<lparr>idb_entries := [entry1], idb_outbox := [item1]\<rparr>))
     = [(fromServer (stored ''x1'' payload1))]"
  by code_simp

theorem adapter_and_drain_entries_synced_witness:
  "fetchEntries memServer [stored ''x1'' payload1]
     = (Inr [fromServer (stored ''x1'' payload1)], [stored ''x1'' payload1]) \<and>
   createEntry memServer payload1 [] = (Inr (fromServer (stored ''x1'' payload1)), [stored ''x1'' payload1]) \<and>
   updateEntry memServer ''x1'' payload1 [stored ''x1'' payload1]
     = (Inr (fromServer (stored ''x1'' payload1)), [stored ''x1'' payload1]) \<and>
   idb_entries (processOutbox memServer ((world0 [])\<lparr>idb_entries := [entry1], idb_outbox := [item1]\<rparr>))
     = [fromServer (stored ''x1'' payload1)] \<and>
   fromServer (stored ''x1'' payload1) \<notin> set (idb_entries ((world0 [])\<lparr>idb_entries := [entry1], idb_outbox := [item1]\<rparr>)) \<and>
   syncStatus (fromServer (stored ''x1'' payload1)) = Some synced"
  using adapter_and_drain_entries_synced [of memServer "[]" "[fromServer (stored ''x1'' payload1)]"
      "[stored ''x1'' payload1]" payload1 "fromServer (stored ''x1'' payload1)" "[stored ''x1'' payload1]"
      "''x1''" "fromServer (stored ''x1'' payload1)" "[stored ''x1'' payload1]"
      "(world0 [])\<lparr>idb_entries := [entry1], idb_outbox := [item1]\<rparr>"]
    memServer_create_run memServer_update_run memServer_list_run drain_create_run
  by (simp add: world0_def entry1_def fromServer_def)


section \<open>A not-found answer to a delete is a success\<close>

lemma deleteEntryRemote_404:
  "DELETE_entry rc i r = (Response 404 err body, r') \<Longrightarrow> deleteEntryRemote rc i r = (Inr (), r')"
  by (simp add: deleteEntryRemote_def)

lemma drainItem_delete_404:
  assumes "action item = delete"
    and "DELETE_entry rc (entryId item) (server w) = (Response 404 err body, r')"
  shows "drainItem rc item w =
     (Inr (), deleteOutboxItem (o_id item)
                (w\<lparr>server := r', calls := calls w @ [(DeleteCall (entryId item), True)]\<rparr>))"
  using assms
  by (simp add: drainItem_def andThen_def replayCreate_def replayUpdate_def replayDelete_def
      remote_def deleteEntryRemote_404 isOK_def split: option.splits)

text \<open>
  C7. Remote delete is idempotent on the client side. When the server answers 404 to the
  \<^verbatim>\<open>DELETE\<close> of an item's \<^verbatim>\<open>entryId\<close>, \<^verbatim>\<open>deleteEntryRemote\<close> returns normally, the
  drain of that item succeeds and removes it from the outbox; an outbox holding only
  that stale delete is empty after \<^verbatim>\<open>processOutbox\<close>, and no error is recorded.
\<close>

theorem stale_delete_is_success:
  assumes "action item = delete"
    and "DELETE_entry rc (entryId item) (server w) = (Response 404 err body, r')"
  shows "deleteEntryRemote rc (entryId item) (server w) = (Inr (), r') \<and>
    (\<exists>w'. drainItem rc item w = (Inr (), w') \<and>
          idb_outbox w' = store_delete o_id (o_id item) (idb_outbox w)) \<and>
    (\<not> noToken w \<and> idb_outbox w = [item] \<longrightarrow>
       idb_outbox (processOutbox rc w) = [] \<and> error (processOutbox rc w) = error w)"
proof -
  have 1: "deleteEntryRemote rc (entryId item) (server w) = (Inr (), r')"
    using assms(2) by (rule deleteEntryRemote_404)
  have 2: "\<exists>w'. drainItem rc item w = (Inr (), w') \<and>
          idb_outbox w' = store_delete o_id (o_id item) (idb_outbox w)"
    using drainItem_delete_404 [OF assms] by (simp add: deleteOutboxItem_def)
  have 3: "idb_outbox (processOutbox rc w) = [] \<and> error (processOutbox rc w) = error w"
    if a: "\<not> noToken w \<and> idb_outbox w = [item]"
  proof -
    from a have "refreshOutbox w = [item]" by (simp add: refreshOutbox_def getOutboxItems_def)
    with a show ?thesis
      using drainItem_delete_404 [OF assms]
      by (simp add: processOutbox_def deleteOutboxItem_def store_delete_def)
  qed
  from 1 2 3 show ?thesis by blast
qed

lemma stale_delete_run:
  "DELETE_entry memServer (entryId item3) (server ((world0 [])\<lparr>idb_outbox := [item3]\<rparr>))
     = (Response 404 (Some ''entry not found'') (Inl ''no body''), [])"
  by code_simp

theorem stale_delete_is_success_witness:
  "action item3 = delete \<and>
   DELETE_entry memServer (entryId item3) (server ((world0 [])\<lparr>idb_outbox := [item3]\<rparr>))
     = (Response 404 (Some ''entry not found'') (Inl ''no body''), []) \<and>
   \<not> noToken ((world0 [])\<lparr>idb_outbox := [item3]\<rparr>) \<and>
   idb_outbox ((world0 [])\<lparr>idb_outbox := [item3]\<rparr>) = [item3] \<and>
   deleteEntryRemote memServer (entryId item3) (server ((world0 [])\<lparr>idb_outbox := [item3]\<rparr>)) = (Inr (), []) \<and>
   idb_outbox (processOutbox memServer ((world0 [])\<lparr>idb_outbox := [item3]\<rparr>)) = [] \<and>
   error (processOutbox memServer ((world0 [])\<lparr>idb_outbox := [item3]\<rparr>)) = None"
proof -
  have a: "action item3 = delete" by (simp add: item3_def)
  have n: "\<not> noToken ((world0 [])\<lparr>idb_outbox := [item3]\<rparr>)" by (simp add: noToken_def world0_def)
  have b: "idb_outbox ((world0 [])\<lparr>idb_outbox := [item3]\<rparr>) = [item3]" by simp
  have e: "error ((world0 [])\<lparr>idb_outbox := [item3]\<rparr>) = None" by (simp add: world0_def)
  from stale_delete_is_success [OF a stale_delete_run] a n b e stale_delete_run
  show ?thesis by metis
qed


section \<open>The reconcile merge: pending wins\<close>

lemma Map_set_fresh: "k \<notin> fst ` set m \<Longrightarrow> Map_set k v m = m @ [(k, v)]"
  by (induction m) auto

lemma foldl_Map_set_distinct:
  "distinct (map fst (m @ pairs)) \<Longrightarrow> foldl (\<lambda>m (k, v). Map_set k v m) m pairs = m @ pairs"
proof (induction pairs arbitrary: m)
  case Nil
  then show ?case by simp
next
  case (Cons kv pairs)
  obtain k v where kv: "kv = (k, v)" by (cases kv)
  from Cons.prems kv have fresh: "k \<notin> fst ` set m" by auto
  from Cons.prems kv have "distinct (map fst ((m @ [(k, v)]) @ pairs))" by simp
  from Cons.IH [OF this] show ?case by (simp add: kv Map_set_fresh [OF fresh])
qed

lemma new_Map_distinct: "distinct (map fst pairs) \<Longrightarrow> new_Map pairs = pairs"
  using foldl_Map_set_distinct [of "[]" pairs] by (simp add: new_Map_def)

lemma pendingMap_distinct:
  assumes "distinct (map e_id localEntries)"
  shows "pendingMap localEntries =
    map (\<lambda>entry. (e_id entry, entry)) (filter (\<lambda>entry. syncStatus entry = Some pending) localEntries)"
proof -
  have "distinct (map e_id (filter (\<lambda>entry. syncStatus entry = Some pending) localEntries))"
    using assms by (rule distinct_map_filter)
  then show ?thesis by (simp add: pendingMap_def new_Map_distinct comp_def)
qed

lemma Map_get_pendingMap:
  assumes "distinct (map e_id localEntries)"
  shows "Map_get (pendingMap localEntries) i = Some p \<longleftrightarrow>
         p \<in> set localEntries \<and> syncStatus p = Some pending \<and> e_id p = i"
proof -
  let ?ps = "filter (\<lambda>entry. syncStatus entry = Some pending) localEntries"
  have d: "distinct (map fst (map (\<lambda>entry. (e_id entry, entry)) ?ps))"
    using distinct_map_filter [OF assms] by (simp add: comp_def)
  have "map_of (map (\<lambda>entry. (e_id entry, entry)) ?ps) i = Some p
        \<longleftrightarrow> (i, p) \<in> set (map (\<lambda>entry. (e_id entry, entry)) ?ps)"
    using d by (auto dest: map_of_SomeD intro: map_of_is_SomeI)
  then show ?thesis by (auto simp: Map_get_def pendingMap_distinct [OF assms])
qed


lemma append_missing_subset:
  "set m \<subseteq> set (foldl (\<lambda>merged (k, entry).
        if find (\<lambda>item. e_id item = e_id entry) merged = None
        then merged @ [entry] else merged) m ps)"
proof (induction ps arbitrary: m)
  case Nil
  then show ?case by simp
next
  case (Cons kv ps)
  obtain k e where kv: "kv = (k, e)" by (cases kv)
  show ?case using Cons.IH [of "m @ [e]"] Cons.IH [of m] by (auto simp: kv)
qed

lemma append_missing_sound:
  "x \<in> set (foldl (\<lambda>merged (k, entry).
        if find (\<lambda>item. e_id item = e_id entry) merged = None
        then merged @ [entry] else merged) m ps) \<Longrightarrow>
   x \<in> set m \<or> (x \<in> snd ` set ps \<and> e_id x \<notin> e_id ` set m)"
proof (induction ps arbitrary: m)
  case Nil
  then show ?case by simp
next
  case (Cons kv ps)
  obtain k e where kv: "kv = (k, e)" by (cases kv)
  show ?case
  proof (cases "find (\<lambda>item. e_id item = e_id e) m = None")
    case True
    then have fresh: "e_id e \<notin> e_id ` set m" by (auto simp: find_None_iff)
    from Cons.prems True kv Cons.IH [of "m @ [e]"]
    have "x \<in> set (m @ [e]) \<or> (x \<in> snd ` set ps \<and> e_id x \<notin> e_id ` set (m @ [e]))" by simp
    with fresh kv show ?thesis by force
  next
    case False
    with Cons.prems kv Cons.IH [of m] show ?thesis by force
  qed
qed

lemma append_missing_complete:
  "distinct (map (\<lambda>kv. e_id (snd kv)) ps) \<Longrightarrow> (k, e) \<in> set ps \<Longrightarrow> e_id e \<notin> e_id ` set m \<Longrightarrow>
   e \<in> set (foldl (\<lambda>merged (k, entry).
        if find (\<lambda>item. e_id item = e_id entry) merged = None
        then merged @ [entry] else merged) m ps)"
proof (induction ps arbitrary: m)
  case Nil
  then show ?case by simp
next
  case (Cons kv ps)
  obtain k1 e1 where kv: "kv = (k1, e1)" by (cases kv)
  show ?case
  proof (cases "(k, e) = (k1, e1)")
    case True
    with Cons.prems(3) have "find (\<lambda>item. e_id item = e_id e1) m = None"
      by (auto simp: find_None_iff image_iff)
    with True kv show ?thesis
      using append_missing_subset [of "m @ [e1]" ps] by auto
  next
    case False
    with Cons.prems(2) kv have mem: "(k, e) \<in> set ps" by auto
    with Cons.prems(1) kv have ne: "e_id e \<noteq> e_id e1" by force
    from Cons.prems(1) have d: "distinct (map (\<lambda>kv. e_id (snd kv)) ps)" by simp
    show ?thesis
    proof (cases "find (\<lambda>item. e_id item = e_id e1) m = None")
      case True
      from ne Cons.prems(3) have "e_id e \<notin> e_id ` set (m @ [e1])" by auto
      from Cons.IH [OF d mem this] True kv show ?thesis by simp
    next
      case False
      from Cons.IH [OF d mem Cons.prems(3)] False kv show ?thesis by auto
    qed
  qed
qed

lemma store_put_mem: "x \<in> set (store_put key x st)"
  by (induction st) auto

lemma store_put_keeps: "x \<in> set st \<Longrightarrow> key y \<noteq> key x \<Longrightarrow> x \<in> set (store_put key y st)"
  by (induction st) auto

lemma putAll_keeps_last:
  "p \<in> set st \<or> p \<in> set es \<Longrightarrow> \<forall>m \<in> set es. e_id m = e_id p \<longrightarrow> m = p \<Longrightarrow>
   p \<in> set (foldl (\<lambda>st entry. store_put e_id entry st) st es)"
proof (induction es arbitrary: st)
  case Nil
  then show ?case by simp
next
  case (Cons e es)
  have "p \<in> set (store_put e_id e st) \<or> p \<in> set es"
  proof (cases "e = p")
    case True
    then show ?thesis by (simp add: store_put_mem)
  next
    case False
    with Cons.prems(2) have "e_id e \<noteq> e_id p" by auto
    with Cons.prems(1) False show ?thesis by (auto intro: store_put_keeps)
  qed
  moreover from Cons.prems(2) have "\<forall>m \<in> set es. e_id m = e_id p \<longrightarrow> m = p" by simp
  ultimately show ?case using Cons.IH by simp
qed

text \<open>
  C4. The merge of \<^verbatim>\<open>syncFromServer\<close>, for a Local Store with one entry per id.
  For every entry of the remote listing the merged list holds the pending local entry
  of that id when there is one, and the remote entry otherwise; every pending local
  entry whose id the listing lacks is in the merged list too; the merged list holds
  nothing else. So the pending local entry is the only entry of its id in the merged
  list (its fields override the remote ones), and it is in the Local Store once the
  merged list has replaced the collection.
\<close>

theorem pending_wins_merge:
  assumes "distinct (map e_id localEntries)"
  shows
    "(\<forall>r \<in> set remoteEntries.
        (\<forall>p \<in> set localEntries. syncStatus p = Some pending \<and> e_id p = e_id r \<longrightarrow>
            p \<in> set (mergeEntries localEntries remoteEntries)) \<and>
        ((\<forall>p \<in> set localEntries. syncStatus p = Some pending \<longrightarrow> e_id p \<noteq> e_id r) \<longrightarrow>
            r \<in> set (mergeEntries localEntries remoteEntries))) \<and>
     (\<forall>p \<in> set localEntries. syncStatus p = Some pending \<and> e_id p \<notin> e_id ` set remoteEntries \<longrightarrow>
        p \<in> set (mergeEntries localEntries remoteEntries)) \<and>
     (\<forall>m \<in> set (mergeEntries localEntries remoteEntries).
        (m \<in> set localEntries \<and> syncStatus m = Some pending) \<or>
        (m \<in> set remoteEntries \<and>
         (\<forall>p \<in> set localEntries. syncStatus p = Some pending \<longrightarrow> e_id p \<noteq> e_id m))) \<and>
     (\<forall>p \<in> set localEntries. syncStatus p = Some pending \<longrightarrow>
        (\<forall>m \<in> set (mergeEntries localEntries remoteEntries). e_id m = e_id p \<longrightarrow> m = p) \<and>
        p \<in> set (idb_entries (putEntries (mergeEntries localEntries remoteEntries) (clearEntries w))))"
proof -
  let ?pend = "pendingMap localEntries"
  let ?merged = "mergeEntries localEntries remoteEntries"
  let ?first = "map (\<lambda>entry. case Map_get ?pend (e_id entry) of
                                 Some pendingEntry \<Rightarrow> pendingEntry | None \<Rightarrow> entry) remoteEntries"
  note get = Map_get_pendingMap [OF assms]
  have none: "Map_get ?pend i = None \<longleftrightarrow>
      (\<forall>p \<in> set localEntries. syncStatus p = Some pending \<longrightarrow> e_id p \<noteq> i)" for i
    using get [of i] by (cases "Map_get ?pend i") auto
  have pend_set: "(k, p) \<in> set ?pend \<longleftrightarrow>
      p \<in> set localEntries \<and> syncStatus p = Some pending \<and> k = e_id p" for k p
    by (auto simp: pendingMap_distinct [OF assms])
  have pend_distinct: "distinct (map (\<lambda>kv. e_id (snd kv)) ?pend)"
    using distinct_map_filter [OF assms] by (simp add: pendingMap_distinct [OF assms] comp_def)
  have first_ids: "e_id ` set ?first = e_id ` set remoteEntries"
  proof -
    have "e_id (case Map_get ?pend (e_id r) of Some pendingEntry \<Rightarrow> pendingEntry | None \<Rightarrow> r) = e_id r" for r
      using get [of "e_id r"] by (cases "Map_get ?pend (e_id r)") auto
    then show ?thesis by (simp add: image_image)
  qed
  have first_sub: "set ?first \<subseteq> set ?merged"
    using append_missing_subset [of ?first ?pend] by (simp add: mergeEntries_def Let_def)
  have a1: "p \<in> set ?merged"
    if "r \<in> set remoteEntries" "p \<in> set localEntries" "syncStatus p = Some pending" "e_id p = e_id r" for r p
  proof -
    from that get [of "e_id r" p] have "Map_get ?pend (e_id r) = Some p" by simp
    with that(1) have "p \<in> set ?first" by force
    with first_sub show ?thesis by blast
  qed
  have a2: "r \<in> set ?merged"
    if "r \<in> set remoteEntries" "\<forall>p \<in> set localEntries. syncStatus p = Some pending \<longrightarrow> e_id p \<noteq> e_id r" for r
  proof -
    from that(2) none [of "e_id r"] have "Map_get ?pend (e_id r) = None" by simp
    with that(1) have "r \<in> set ?first" by force
    with first_sub show ?thesis by blast
  qed
  have b: "p \<in> set ?merged"
    if "p \<in> set localEntries" "syncStatus p = Some pending" "e_id p \<notin> e_id ` set remoteEntries" for p
  proof -
    from that pend_set have "(e_id p, p) \<in> set ?pend" by simp
    moreover from that(3) first_ids have "e_id p \<notin> e_id ` set ?first" by simp
    ultimately show ?thesis
      using append_missing_complete [OF pend_distinct, of "e_id p" p ?first]
      by (simp add: mergeEntries_def Let_def)
  qed
  have c: "(m \<in> set localEntries \<and> syncStatus m = Some pending) \<or>
        (m \<in> set remoteEntries \<and>
         (\<forall>p \<in> set localEntries. syncStatus p = Some pending \<longrightarrow> e_id p \<noteq> e_id m))"
    if m: "m \<in> set ?merged" for m
  proof -
    from m have "m \<in> set ?first \<or> m \<in> snd ` set ?pend"
      using append_missing_sound [of m ?first ?pend] by (auto simp: mergeEntries_def Let_def)
    then show ?thesis
    proof
      assume "m \<in> set ?first"
      then obtain r where r: "r \<in> set remoteEntries"
        and mr: "m = (case Map_get ?pend (e_id r) of Some pendingEntry \<Rightarrow> pendingEntry | None \<Rightarrow> r)"
        by auto
      show ?thesis
      proof (cases "Map_get ?pend (e_id r)")
        case None
        with mr r none [of "e_id r"] show ?thesis by simp
      next
        case (Some q)
        with mr get [of "e_id r" q] show ?thesis by simp
      qed
    next
      assume "m \<in> snd ` set ?pend"
      with pend_set show ?thesis by force
    qed
  qed
  have all_in: "p \<in> set ?merged" if "p \<in> set localEntries" "syncStatus p = Some pending" for p
  proof (cases "e_id p \<in> e_id ` set remoteEntries")
    case True
    then obtain r where "r \<in> set remoteEntries" "e_id p = e_id r" by auto
    with that show ?thesis by (blast intro: a1)
  next
    case False
    with that show ?thesis by (blast intro: b)
  qed
  have d1: "m = p"
    if "p \<in> set localEntries" "syncStatus p = Some pending" "m \<in> set ?merged" "e_id m = e_id p" for p m
  proof -
    from c [OF that(3)] that(1,2,4) have "m \<in> set localEntries" by auto
    with that(1,4) assms show ?thesis by (meson distinct_map inj_onD)
  qed
  have d2: "p \<in> set (idb_entries (putEntries ?merged (clearEntries w)))"
    if "p \<in> set localEntries" "syncStatus p = Some pending" for p
  proof -
    have "\<forall>m \<in> set ?merged. e_id m = e_id p \<longrightarrow> m = p" using d1 [OF that] by blast
    with all_in [OF that] show ?thesis
      using putAll_keeps_last [of p "[]" ?merged] by (simp add: putEntries_def clearEntries_def)
  qed
  show ?thesis using a1 a2 b c d1 d2 by blast
qed


theorem pending_wins_merge_witness:
  "distinct (map e_id [entry1]) \<and>
   syncStatus entry1 = Some pending \<and> e_id entry1 = e_id remoteOld \<and>
   e_notes entry1 = ''local'' \<and> e_notes remoteOld = ''remote-old'' \<and>
   entry1 \<in> set (mergeEntries [entry1] [remoteOld, remoteOther]) \<and>
   remoteOther \<in> set (mergeEntries [entry1] [remoteOld, remoteOther]) \<and>
   remoteOld \<notin> set (mergeEntries [entry1] [remoteOld, remoteOther]) \<and>
   entry1 \<in> set (idb_entries (putEntries (mergeEntries [entry1] [remoteOld, remoteOther])
                                  (clearEntries (world0 []))))"
proof -
  have d: "distinct (map e_id [entry1])" by simp
  have f: "syncStatus entry1 = Some pending" "e_id entry1 = e_id remoteOld"
    "e_notes entry1 = ''local''" "e_notes remoteOld = ''remote-old''" "e_id remoteOther \<noteq> e_id entry1"
    "remoteOld \<noteq> entry1"
    by (simp_all add: entry1_def remoteOld_def remoteOther_def fromServer_def stored_def)
  note T = pending_wins_merge [OF d, of "[remoteOld, remoteOther]" "world0 []"]
  note A = T [THEN conjunct1]
  note D = T [THEN conjunct2, THEN conjunct2, THEN conjunct2]
  have l: "entry1 \<in> set [entry1]" and r1: "remoteOld \<in> set [remoteOld, remoteOther]"
    and r2: "remoteOther \<in> set [remoteOld, remoteOther]" by simp_all
  from D [THEN bspec, OF l] f(1)
  have 5: "\<forall>m \<in> set (mergeEntries [entry1] [remoteOld, remoteOther]). e_id m = e_id entry1 \<longrightarrow> m = entry1"
    and 4: "entry1 \<in> set (idb_entries (putEntries (mergeEntries [entry1] [remoteOld, remoteOther])
                                  (clearEntries (world0 []))))" by blast+
  from A [THEN bspec, OF r1, THEN conjunct1, THEN bspec, OF l] f(1,2)
  have 1: "entry1 \<in> set (mergeEntries [entry1] [remoteOld, remoteOther])" by blast
  have "\<forall>p \<in> set [entry1]. syncStatus p = Some pending \<longrightarrow> e_id p \<noteq> e_id remoteOther"
    using f(5) by simp
  with A [THEN bspec, OF r2, THEN conjunct2]
  have 2: "remoteOther \<in> set (mergeEntries [entry1] [remoteOld, remoteOther])" by blast
  from 5 f(2,6) have 3: "remoteOld \<notin> set (mergeEntries [entry1] [remoteOld, remoteOther])" by metis
  from d f(1-4) 1 2 3 4 show ?thesis by blast
qed


section \<open>The drain: order, and stopping at the first failure\<close>

lemma remote_calls:
  "remote c f w = (res, w') \<Longrightarrow>
   calls w' = calls w @ [(c, isOK res)] \<and> idb_outbox w' = idb_outbox w \<and> error w' = error w
   \<and> token w' = token w \<and> onLine w' = onLine w \<and> syncState w' = syncState w"
  by (auto simp: remote_def split: prod.splits)

lemma replayCreate_log:
  assumes "replayCreate rc item w = (res, w')"
  shows "idb_outbox w' = idb_outbox w \<and> error w' = error w \<and>
    calls w' = calls w @ (if action item = create then map (\<lambda>c. (c, isOK res)) (item_call item) else []) \<and>
    (\<not> isOK res \<longrightarrow> action item = create \<and> item_call item \<noteq> [])"
  using assms
  by (auto simp: replayCreate_def item_call_def putEntry_def isOK_def
      split: option.splits if_splits prod.splits sum.splits dest!: remote_calls)

lemma replayUpdate_log:
  assumes "replayUpdate rc item w = (res, w')"
  shows "idb_outbox w' = idb_outbox w \<and> error w' = error w \<and>
    calls w' = calls w @ (if action item = update then map (\<lambda>c. (c, isOK res)) (item_call item) else []) \<and>
    (\<not> isOK res \<longrightarrow> action item = update \<and> item_call item \<noteq> [])"
  using assms
  by (auto simp: replayUpdate_def item_call_def putEntry_def isOK_def
      split: option.splits if_splits prod.splits sum.splits dest!: remote_calls)

lemma replayDelete_log:
  assumes "replayDelete rc item w = (res, w')"
  shows "idb_outbox w' = idb_outbox w \<and> error w' = error w \<and>
    calls w' = calls w @ (if action item = delete then map (\<lambda>c. (c, isOK res)) (item_call item) else []) \<and>
    (\<not> isOK res \<longrightarrow> action item = delete \<and> item_call item \<noteq> [])"
  using assms
  by (auto simp: replayDelete_def item_call_def isOK_def
      split: if_splits prod.splits sum.splits dest!: remote_calls)

lemma drainItem_log:
  assumes "drainItem rc item w = (res, w')"
  shows "error w' = error w \<and> calls w' = calls w @ logged (isOK res) [item] \<and>
    (isOK res \<longrightarrow> idb_outbox w' = store_delete o_id (o_id item) (idb_outbox w)) \<and>
    (\<not> isOK res \<longrightarrow> idb_outbox w' = idb_outbox w \<and> item_call item \<noteq> [])"
proof -
  obtain r1 w1 where s1: "replayCreate rc item w = (r1, w1)" by force
  note l1 = replayCreate_log [OF s1]
  show ?thesis
  proof (cases r1)
    case (Inl msg)
    with assms s1 have "res = Inl msg" "w' = w1" by (auto simp: drainItem_def andThen_def)
    with l1 Inl show ?thesis by (auto simp: logged_def isOK_def)
  next
    case Inr1: (Inr u1)
    obtain r2 w2 where s2: "replayUpdate rc item w1 = (r2, w2)" by force
    note l2 = replayUpdate_log [OF s2]
    show ?thesis
    proof (cases r2)
      case (Inl msg)
      with assms s1 s2 Inr1 have "res = Inl msg" "w' = w2" by (auto simp: drainItem_def andThen_def)
      with l1 l2 Inl Inr1 show ?thesis by (auto simp: logged_def isOK_def)
    next
      case Inr2: (Inr u2)
      obtain r3 w3 where s3: "replayDelete rc item w2 = (r3, w3)" by force
      note l3 = replayDelete_log [OF s3]
      show ?thesis
      proof (cases r3)
        case (Inl msg)
        with assms s1 s2 s3 Inr1 Inr2 have "res = Inl msg" "w' = w3"
          by (auto simp: drainItem_def andThen_def)
        with l1 l2 l3 Inl Inr1 Inr2 show ?thesis by (auto simp: logged_def isOK_def)
      next
        case Inr3: (Inr u3)
        with assms s1 s2 s3 Inr1 Inr2 have "res = Inr ()" "w' = deleteOutboxItem (o_id item) w3"
          by (auto simp: drainItem_def andThen_def)
        with l1 l2 l3 Inr1 Inr2 Inr3 show ?thesis
          by (cases "action item") (auto simp: logged_def isOK_def deleteOutboxItem_def)
      qed
    qed
  qed
qed


lemma logged_Cons: "logged ok (item # items) = logged ok [item] @ logged ok items"
  by (simp add: logged_def)

lemma logged_Nil [simp]: "logged ok [] = []"
  by (simp add: logged_def)

lemma drain_log:
  "\<exists>fin rest. items = fin @ rest \<and>
     calls (drain rc items w) = calls w @ logged True fin @ logged False (take 1 rest) \<and>
     idb_outbox (drain rc items w) = filter (\<lambda>x. o_id x \<notin> o_id ` set fin) (idb_outbox w) \<and>
     (rest = [] \<longrightarrow> error (drain rc items w) = error w) \<and>
     (rest \<noteq> [] \<longrightarrow> (\<exists>msg. error (drain rc items w) = Some msg) \<and> item_call (hd rest) \<noteq> [])"
proof (induction items arbitrary: w)
  case Nil
  then show ?case by simp
next
  case (Cons item items)
  obtain res w' where s: "drainItem rc item w = (res, w')" by force
  note l = drainItem_log [OF s]
  show ?case
  proof (cases res)
    case (Inl msg)
    with s l have "item # items = [] @ (item # items) \<and>
      calls (drain rc (item # items) w) = calls w @ logged True [] @ logged False (take 1 (item # items)) \<and>
      idb_outbox (drain rc (item # items) w) = filter (\<lambda>x. o_id x \<notin> o_id ` set []) (idb_outbox w) \<and>
      (\<exists>m. error (drain rc (item # items) w) = Some m) \<and> item_call (hd (item # items)) \<noteq> []"
      by (simp add: isOK_def)
    then show ?thesis by blast
  next
    case (Inr u)
    from Cons.IH [of w'] obtain fin rest where ih: "items = fin @ rest"
      "calls (drain rc items w') = calls w' @ logged True fin @ logged False (take 1 rest)"
      "idb_outbox (drain rc items w') = filter (\<lambda>x. o_id x \<notin> o_id ` set fin) (idb_outbox w')"
      "rest = [] \<longrightarrow> error (drain rc items w') = error w'"
      "rest \<noteq> [] \<longrightarrow> (\<exists>msg. error (drain rc items w') = Some msg) \<and> item_call (hd rest) \<noteq> []"
      by blast
    from s Inr have d: "drain rc (item # items) w = drain rc items w'" by simp
    from l Inr have l': "error w' = error w" "calls w' = calls w @ logged True [item]"
      "idb_outbox w' = store_delete o_id (o_id item) (idb_outbox w)" by (simp_all add: isOK_def)
    have "item # items = (item # fin) @ rest" using ih(1) by simp
    moreover have "calls (drain rc (item # items) w)
        = calls w @ logged True (item # fin) @ logged False (take 1 rest)"
      using d ih(2) l'(2) logged_Cons [of True item fin] by simp
    moreover have "idb_outbox (drain rc (item # items) w)
        = filter (\<lambda>x. o_id x \<notin> o_id ` set (item # fin)) (idb_outbox w)"
      using d ih(3) l'(3) by (auto simp: store_delete_def intro: filter_cong)
    moreover have "rest = [] \<longrightarrow> error (drain rc (item # items) w) = error w"
      using d ih(4) l'(1) by simp
    moreover have "rest \<noteq> [] \<longrightarrow> (\<exists>msg. error (drain rc (item # items) w) = Some msg) \<and> item_call (hd rest) \<noteq> []"
      using d ih(5) by simp
    ultimately show ?thesis by blast
  qed
qed


lemma processOutbox_log:
  assumes "\<not> noToken w" and "distinct (map o_id (idb_outbox w))"
  shows "\<exists>fin rest. refreshOutbox w = fin @ rest \<and>
      calls (processOutbox rc w) = calls w @ logged True fin @ logged False (take 1 rest) \<and>
      idb_outbox (processOutbox rc w) = filter (\<lambda>x. x \<notin> set fin) (idb_outbox w) \<and>
      set rest \<subseteq> set (idb_outbox (processOutbox rc w)) \<and>
      (rest \<noteq> [] \<longrightarrow> item_call (hd rest) \<noteq> [] \<and> (\<exists>msg. error (processOutbox rc w) = Some msg)) \<and>
      (rest = [] \<longrightarrow> error (processOutbox rc w) = error w)"
proof -
  let ?items = "refreshOutbox w"
  have set_items: "set ?items = set (idb_outbox w)"
    by (simp add: refreshOutbox_def getOutboxItems_def)
  have dist_items: "distinct ?items"
    using assms(2) by (simp add: refreshOutbox_def getOutboxItems_def distinct_map)
  have inj: "inj_on o_id (set (idb_outbox w))" using assms(2) by (simp add: distinct_map)
  from drain_log [of ?items rc w] obtain fin rest where dl: "?items = fin @ rest"
    "calls (drain rc ?items w) = calls w @ logged True fin @ logged False (take 1 rest)"
    "idb_outbox (drain rc ?items w) = filter (\<lambda>x. o_id x \<notin> o_id ` set fin) (idb_outbox w)"
    "rest = [] \<longrightarrow> error (drain rc ?items w) = error w"
    "rest \<noteq> [] \<longrightarrow> (\<exists>msg. error (drain rc ?items w) = Some msg) \<and> item_call (hd rest) \<noteq> []"
    by blast
  have p: "processOutbox rc w = drain rc ?items w" using assms(1) by (simp add: processOutbox_def)
  from dl(1) set_items have fin_sub: "set fin \<subseteq> set (idb_outbox w)" and rest_sub: "set rest \<subseteq> set (idb_outbox w)"
    by auto
  from dl(1) dist_items have disj: "set fin \<inter> set rest = {}" by (metis distinct_append)
  have same: "(o_id x \<notin> o_id ` set fin) = (x \<notin> set fin)" if "x \<in> set (idb_outbox w)" for x
    using that fin_sub inj by (auto dest: inj_onD)
  have f: "filter (\<lambda>x. o_id x \<notin> o_id ` set fin) (idb_outbox w) = filter (\<lambda>x. x \<notin> set fin) (idb_outbox w)"
    by (rule filter_cong) (simp_all add: same)
  have "set rest \<subseteq> set (filter (\<lambda>x. x \<notin> set fin) (idb_outbox w))"
    using rest_sub disj by auto
  with dl f p show ?thesis by (metis (no_types, lifting))
qed

theorem drain_strict_order_counterexample:
  "idb_outbox worldTie = [item3, item4] \<and> queuedAt item3 = queuedAt item4 \<and>
   calls (processOutbox memServer worldTie) = [(DeleteCall ''e1'', True), (DeleteCall ''e2'', True)] \<and>
   \<not> sorted_wrt (<) (map queuedAt (refreshOutbox worldTie))"
  by code_simp

text \<open>
  C5, as amended. The drain replays the outbox items in ascending \<^verbatim>\<open>queuedAt\<close> order,
  items with the same \<^verbatim>\<open>queuedAt\<close> in the order \<^verbatim>\<open>getAll()\<close> returns them (by id); the
  order is strict when no two items share a \<^verbatim>\<open>queuedAt\<close>, and not otherwise, as the
  run above shows. It stops at the first item whose request
  fails: the requests sent are those of the items before it, all successful, then the
  failing one, and none of a later item; the outbox afterwards is the old one without
  the items before the failing one, so the failing item and every later item are still
  there, unchanged.
\<close>

theorem drain_in_order_stops_at_failure:
  assumes "\<not> noToken w" and "distinct (map o_id (idb_outbox w))"
  shows "sorted (map queuedAt (refreshOutbox w)) \<and>
    (distinct (map queuedAt (idb_outbox w)) \<longrightarrow> sorted_wrt (<) (map queuedAt (refreshOutbox w))) \<and>
    mset (refreshOutbox w) = mset (idb_outbox w) \<and>
    (\<forall>t. filter (\<lambda>x. queuedAt x = t) (refreshOutbox w) = filter (\<lambda>x. queuedAt x = t) (idb_outbox w)) \<and>
    (\<exists>fin rest. refreshOutbox w = fin @ rest \<and>
      calls (processOutbox rc w) = calls w @ logged True fin @ logged False (take 1 rest) \<and>
      idb_outbox (processOutbox rc w) = filter (\<lambda>x. x \<notin> set fin) (idb_outbox w) \<and>
      set rest \<subseteq> set (idb_outbox (processOutbox rc w)) \<and>
      (rest \<noteq> [] \<longrightarrow> item_call (hd rest) \<noteq> [] \<and> (\<exists>msg. error (processOutbox rc w) = Some msg)) \<and>
      (rest = [] \<longrightarrow> error (processOutbox rc w) = error w))"
proof -
  have "sorted (map queuedAt (refreshOutbox w))"
    by (simp add: refreshOutbox_def sorted_sort_key)
  moreover have "sorted_wrt (<) (map queuedAt (refreshOutbox w))"
    if d: "distinct (map queuedAt (idb_outbox w))"
  proof -
    have "mset (map queuedAt (refreshOutbox w)) = mset (map queuedAt (idb_outbox w))"
      by (simp add: refreshOutbox_def getOutboxItems_def)
    with d have "distinct (map queuedAt (refreshOutbox w))"
      by (metis mset_eq_imp_distinct_iff)
    then show ?thesis
      by (simp add: strict_sorted_iff refreshOutbox_def sorted_sort_key)
  qed
  moreover have "mset (refreshOutbox w) = mset (idb_outbox w)"
    by (simp add: refreshOutbox_def getOutboxItems_def)
  moreover have "\<forall>t. filter (\<lambda>x. queuedAt x = t) (refreshOutbox w) = filter (\<lambda>x. queuedAt x = t) (idb_outbox w)"
    by (simp add: refreshOutbox_def getOutboxItems_def sort_key_stable)
  ultimately show ?thesis using processOutbox_log [OF assms, of rc] by blast
qed

lemma world5_run:
  "refreshOutbox world5 = [item1, badItem, item3] \<and>
   calls (processOutbox memServer world5) =
     [(CreateCall payload1, True), (CreateCall (payload1\<lparr>p_id := Some ''x0'', p_beans := []\<rparr>), False)] \<and>
   idb_outbox (processOutbox memServer world5) = [badItem, item3] \<and>
   error (processOutbox memServer world5) = Some ''beans is required''"
  by code_simp

lemma world5_times: "distinct (map queuedAt (idb_outbox world5))"
  by code_simp

theorem drain_in_order_stops_at_failure_witness:
  "\<not> noToken world5 \<and> distinct (map o_id (idb_outbox world5)) \<and>
   sorted (map queuedAt (refreshOutbox world5)) \<and>
   distinct (map queuedAt (idb_outbox world5)) \<and>
   sorted_wrt (<) (map queuedAt (refreshOutbox world5)) \<and>
   refreshOutbox world5 = [item1, badItem, item3] \<and>
   calls (processOutbox memServer world5) =
     [(CreateCall payload1, True), (CreateCall (payload1\<lparr>p_id := Some ''x0'', p_beans := []\<rparr>), False)] \<and>
   idb_outbox (processOutbox memServer world5) = [badItem, item3] \<and>
   error (processOutbox memServer world5) = Some ''beans is required''"
proof -
  have h1: "\<not> noToken world5" by (simp add: noToken_def world5_def world0_def)
  have h2: "distinct (map o_id (idb_outbox world5))"
    by (simp add: world5_def badItem_def item1_def item3_def)
  note T = drain_in_order_stops_at_failure [OF h1 h2, of memServer]
  from T have s: "sorted (map queuedAt (refreshOutbox world5))" by blast
  from T world5_times have "sorted_wrt (<) (map queuedAt (refreshOutbox world5))" by blast
  with s h1 h2 world5_times world5_run show ?thesis by blast
qed


section \<open>When an outbox item is removed\<close>

lemma remote_frame:
  "remote c f w = (res, w') \<Longrightarrow>
   calls w' = calls w @ [(c, isOK res)] \<and> idb_outbox w' = idb_outbox w \<and> error w' = error w \<and>
   idb_entries w' = idb_entries w"
  by (auto simp: remote_def split: prod.splits)

lemma syncFromServer_fail:
  assumes "syncFromServer rc w = (Inl msg, w')"
  shows "calls w' = calls w @ [(ListCall, False)] \<and> idb_outbox w' = idb_outbox w \<and>
    error w' = error w \<and> idb_entries w' = idb_entries w"
proof -
  obtain r wr where f: "remote ListCall (fetchEntries rc) w = (r, wr)" by force
  from assms f have "r = Inl msg \<and> w' = wr"
    by (cases r) (simp_all add: syncFromServer_def)
  with remote_frame [OF f] show ?thesis by (simp add: isOK_def)
qed

lemma syncFromServer_ok:
  assumes "syncFromServer rc w = (Inr u, w')"
  shows "calls w' = calls w @ [(ListCall, True)] \<and> idb_outbox w' = idb_outbox w \<and>
    error w' = error w \<and>
    (\<exists>remoteEntries. fst (fetchEntries rc (server w)) = Inr remoteEntries \<and>
        idb_entries w' =
        idb_entries (putEntries (mergeEntries (idb_entries w) remoteEntries) (clearEntries w)))"
proof -
  obtain r wr where f: "remote ListCall (fetchEntries rc) w = (r, wr)" by force
  have fr0: "fst (fetchEntries rc (server w)) = r"
    using f by (auto simp: remote_def split: prod.splits)
  from assms f obtain remoteEntries where r: "r = Inr remoteEntries"
    and w': "w' = putEntries (mergeEntries (idb_entries w) remoteEntries) (clearEntries wr)"
    by (cases r) (simp_all add: syncFromServer_def getAllEntries_def)
  note fr = remote_frame [OF f]
  have 1: "calls w' = calls w @ [(ListCall, True)]"
    using fr r by (simp add: w' putEntries_def clearEntries_def isOK_def)
  have 2: "idb_outbox w' = idb_outbox w" using fr by (simp add: w' putEntries_def clearEntries_def)
  have 3: "error w' = error w" using fr by (simp add: w' putEntries_def clearEntries_def)
  have 4: "idb_entries w' =
        idb_entries (putEntries (mergeEntries (idb_entries w) remoteEntries) (clearEntries w))"
    by (simp add: w' putEntries_def clearEntries_def)
  from 1 2 3 4 fr0 r show ?thesis by blast
qed

lemma runSync_pass:
  assumes "\<not> noToken w" and "onLine w"
  shows "\<exists>ok. calls (runSync rc w) = calls (afterDrain rc w) @ [(ListCall, ok)] \<and>
     syncState (runSync rc w) = (if ok then idle else offline) \<and>
     idb_outbox (runSync rc w) = idb_outbox (afterDrain rc w) \<and>
     (\<not> ok \<longrightarrow> idb_entries (runSync rc w) = idb_entries (afterDrain rc w)) \<and>
     (ok \<longrightarrow> error (runSync rc w) = error (afterDrain rc w) \<and>
        (\<exists>remoteEntries.
           fst (fetchEntries rc (server (afterDrain rc w))) = Inr remoteEntries \<and>
           idb_entries (runSync rc w) =
           idb_entries (putEntries (mergeEntries (idb_entries (afterDrain rc w)) remoteEntries)
                          (clearEntries (afterDrain rc w)))))"
proof -
  obtain res w' where s: "syncFromServer rc (afterDrain rc w) = (res, w')" by force
  show ?thesis
  proof (cases res)
    case (Inl msg)
    with s assms have "runSync rc w = w'\<lparr>error := Some msg, syncState := offline\<rparr>"
      by (simp add: runSync_def afterDrain_def)
    with syncFromServer_fail [OF s [unfolded Inl]] show ?thesis
      by (intro exI [of _ False]) simp
  next
    case (Inr u)
    with s assms have "runSync rc w = w'\<lparr>syncState := idle\<rparr>"
      by (simp add: runSync_def afterDrain_def)
    with syncFromServer_ok [OF s [unfolded Inr]] show ?thesis
      by (intro exI [of _ True]) simp
  qed
qed

lemma afterDrain_log:
  assumes "\<not> noToken w" and "distinct (map o_id (idb_outbox w))"
  shows "\<exists>fin rest. refreshOutbox w = fin @ rest \<and>
      calls (afterDrain rc w) = calls w @ logged True fin @ logged False (take 1 rest) \<and>
      idb_outbox (afterDrain rc w) = filter (\<lambda>x. x \<notin> set fin) (idb_outbox w) \<and>
      set rest \<subseteq> set (idb_outbox (afterDrain rc w)) \<and>
      (rest \<noteq> [] \<longrightarrow> item_call (hd rest) \<noteq> [] \<and> (\<exists>msg. error (afterDrain rc w) = Some msg)) \<and>
      (rest = [] \<longrightarrow> error (afterDrain rc w) = None)"
proof -
  define w0 where "w0 = w\<lparr>syncState := syncing, error := None\<rparr>"
  have eqs: "refreshOutbox w0 = refreshOutbox w" "calls w0 = calls w" "idb_outbox w0 = idb_outbox w"
    "error w0 = None" "processOutbox rc w0 = afterDrain rc w"
    by (simp_all add: w0_def refreshOutbox_def getOutboxItems_def afterDrain_def)
  have "\<not> noToken w0" "distinct (map o_id (idb_outbox w0))"
    using assms by (simp_all add: noToken_def w0_def)
  from processOutbox_log [OF this, of rc] show ?thesis unfolding eqs .
qed


lemma removed_item_logged:
  assumes "item \<in> set xs" and "item \<notin> set (filter (\<lambda>x. x \<notin> set fin) xs)" and "c \<in> set (item_call item)"
  shows "(c, True) \<in> set (logged True fin)"
proof -
  from assms(1,2) have "item \<in> set fin" by auto
  with assms(3) show ?thesis by (auto simp: logged_def)
qed

lemma newCalls_append: "calls w' = calls w @ xs \<Longrightarrow> newCalls w w' = xs"
  by (simp add: newCalls_def)

theorem outbox_cleared_without_call_counterexample:
  "idb_outbox worldL = [item1] \<and> item_call item1 = [CreateCall payload1] \<and>
   idb_outbox (handleLogout worldL) = [] \<and> calls (handleLogout worldL) = [] \<and>
   idb_outbox worldN = [item1\<lparr>payload := None\<rparr>] \<and>
   idb_outbox (processOutbox memServer worldN) = [] \<and> calls (processOutbox memServer worldN) = []"
  by code_simp

text \<open>
  C6, as amended. In a sync pass an outbox item that sends a request (a delete, or a
  create or update with its payload) leaves the outbox only after that request has
  returned success: for \<^verbatim>\<open>processOutbox\<close> and for the whole of \<^verbatim>\<open>runSync\<close>, every item
  that was in the outbox and is gone afterwards has its request in the log of the run,
  marked successful. \<^verbatim>\<open>handleLogout\<close> is the exception: it empties the outbox and sends
  no request at all.
\<close>

theorem outbox_item_removed_only_after_success:
  assumes "\<not> noToken w" and "distinct (map o_id (idb_outbox w))"
  shows "(\<forall>item \<in> set (idb_outbox w). item \<notin> set (idb_outbox (processOutbox rc w)) \<longrightarrow>
            (\<forall>c \<in> set (item_call item). (c, True) \<in> set (newCalls w (processOutbox rc w)))) \<and>
         (\<forall>item \<in> set (idb_outbox w). item \<notin> set (idb_outbox (runSync rc w)) \<longrightarrow>
            (\<forall>c \<in> set (item_call item). (c, True) \<in> set (newCalls w (runSync rc w)))) \<and>
         idb_outbox (handleLogout w) = [] \<and> newCalls w (handleLogout w) = []"
proof -
  have 1: "(c, True) \<in> set (newCalls w (processOutbox rc w))"
    if "item \<in> set (idb_outbox w)" "item \<notin> set (idb_outbox (processOutbox rc w))"
      "c \<in> set (item_call item)" for item c
  proof -
    from processOutbox_log [OF assms, of rc] obtain fin rest where
      l: "calls (processOutbox rc w) = calls w @ logged True fin @ logged False (take 1 rest)"
         "idb_outbox (processOutbox rc w) = filter (\<lambda>x. x \<notin> set fin) (idb_outbox w)"
      by blast
    from that l(2) have "(c, True) \<in> set (logged True fin)" by (simp add: removed_item_logged)
    with newCalls_append [OF l(1)] show ?thesis by simp
  qed
  have 2: "(c, True) \<in> set (newCalls w (runSync rc w))"
    if "item \<in> set (idb_outbox w)" "item \<notin> set (idb_outbox (runSync rc w))"
      "c \<in> set (item_call item)" for item c
  proof (cases "onLine w")
    case False
    with assms(1) have "runSync rc w = w\<lparr>syncState := offline\<rparr>" by (simp add: runSync_def)
    with that show ?thesis by simp
  next
    case True
    from afterDrain_log [OF assms, of rc] obtain fin rest where
      l: "calls (afterDrain rc w) = calls w @ logged True fin @ logged False (take 1 rest)"
         "idb_outbox (afterDrain rc w) = filter (\<lambda>x. x \<notin> set fin) (idb_outbox w)"
      by blast
    from runSync_pass [OF assms(1) True, of rc] obtain ok where
      p: "calls (runSync rc w) = calls (afterDrain rc w) @ [(ListCall, ok)]"
         "idb_outbox (runSync rc w) = idb_outbox (afterDrain rc w)"
      by blast
    from that l(2) p(2) have "(c, True) \<in> set (logged True fin)" by (simp add: removed_item_logged)
    moreover have "newCalls w (runSync rc w) = logged True fin @ logged False (take 1 rest) @ [(ListCall, ok)]"
      using l(1) p(1) by (simp add: newCalls_def)
    ultimately show ?thesis by simp
  qed
  have 3: "idb_outbox (handleLogout w) = [] \<and> newCalls w (handleLogout w) = []"
    by (simp add: handleLogout_def clearOutbox_def clearEntries_def newCalls_def)
  from 1 2 3 show ?thesis by blast
qed

lemma worldL_run:
  "idb_outbox worldL = [item1] \<and> idb_outbox (runSync memServer worldL) = [] \<and>
   item_call item1 = [CreateCall payload1] \<and>
   newCalls worldL (runSync memServer worldL) = [(CreateCall payload1, True), (ListCall, True)]"
  by code_simp

theorem outbox_item_removed_only_after_success_witness:
  "\<not> noToken worldL \<and> distinct (map o_id (idb_outbox worldL)) \<and>
   item1 \<in> set (idb_outbox worldL) \<and> item1 \<notin> set (idb_outbox (runSync memServer worldL)) \<and>
   CreateCall payload1 \<in> set (item_call item1) \<and>
   (CreateCall payload1, True) \<in> set (newCalls worldL (runSync memServer worldL)) \<and>
   idb_outbox (handleLogout worldL) = []"
proof -
  have h1: "\<not> noToken worldL" by (simp add: noToken_def worldL_def world0_def)
  have h2: "distinct (map o_id (idb_outbox worldL))" by (simp add: worldL_def)
  have a: "item1 \<in> set (idb_outbox worldL)" "item1 \<notin> set (idb_outbox (runSync memServer worldL))"
    "CreateCall payload1 \<in> set (item_call item1)"
    using worldL_run by simp_all
  note T = outbox_item_removed_only_after_success [OF h1 h2, of memServer]
  from T [THEN conjunct2, THEN conjunct1, THEN bspec, OF a(1)] a(2,3)
  have "(CreateCall payload1, True) \<in> set (newCalls worldL (runSync memServer worldL))" by blast
  moreover from T have "idb_outbox (handleLogout worldL) = []" by blast
  ultimately show ?thesis using h1 h2 a by blast
qed


section \<open>A failed drain does not end the pass\<close>

lemma logged_True_no_failure: "(c, False) \<notin> set (logged True items)"
  by (auto simp: logged_def)

theorem failed_drain_still_reconciles_counterexample:
  "(CreateCall (payload1\<lparr>p_id := Some ''x0'', p_beans := []\<rparr>), False) \<in> set (newCalls worldC (afterDrain memServer worldC)) \<and>
   newCalls worldC (runSync memServer worldC) =
     [(CreateCall payload1, True), (CreateCall (payload1\<lparr>p_id := Some ''x0'', p_beans := []\<rparr>), False),
      (ListCall, True)] \<and>
   syncState (runSync memServer worldC) = idle \<and>
   idb_entries (afterDrain memServer worldC) = [fromServer (stored ''x1'' payload1)] \<and>
   idb_entries (runSync memServer worldC) = [remoteOther, fromServer (stored ''x1'' payload1)] \<and>
   idb_outbox (runSync memServer worldC) = [badItem, item3]"
  by code_simp

text \<open>
  C1, as amended. When a request of the drain step fails, the drain stops there and
  records the message, and the failing item and all later ones stay in the outbox; but
  the pass is not aborted. \<^verbatim>\<open>processOutbox\<close> catches the failure, so \<^verbatim>\<open>runSync\<close> goes on
  to the reconcile step and always sends the listing request. If the listing fails, the
  state becomes Offline and the entries collection is as the drain left it. If the
  listing succeeds, the state becomes Idle, the entries collection is replaced by the
  merge of the listing with the local entries, and the drain's message stays recorded.
\<close>

theorem failed_drain_still_reconciles:
  assumes "\<not> noToken w" and "onLine w" and "distinct (map o_id (idb_outbox w))"
    and "(c, False) \<in> set (newCalls w (afterDrain rc w))"
  shows "\<exists>ok fin rest.
    refreshOutbox w = fin @ rest \<and> rest \<noteq> [] \<and>
    newCalls w (runSync rc w) = logged True fin @ logged False [hd rest] @ [(ListCall, ok)] \<and>
    set rest \<subseteq> set (idb_outbox (runSync rc w)) \<and>
    idb_outbox (runSync rc w) = idb_outbox (afterDrain rc w) \<and>
    syncState (runSync rc w) = (if ok then idle else offline) \<and>
    (\<not> ok \<longrightarrow> idb_entries (runSync rc w) = idb_entries (afterDrain rc w)) \<and>
    (ok \<longrightarrow> error (runSync rc w) = error (afterDrain rc w) \<and> error (afterDrain rc w) \<noteq> None \<and>
       (\<exists>remoteEntries.
           fst (fetchEntries rc (server (afterDrain rc w))) = Inr remoteEntries \<and>
           idb_entries (runSync rc w) =
           idb_entries (putEntries (mergeEntries (idb_entries (afterDrain rc w)) remoteEntries)
                          (clearEntries (afterDrain rc w)))))"
proof -
  from afterDrain_log [OF assms(1,3), of rc] obtain fin rest where
    l: "refreshOutbox w = fin @ rest"
       "calls (afterDrain rc w) = calls w @ logged True fin @ logged False (take 1 rest)"
       "set rest \<subseteq> set (idb_outbox (afterDrain rc w))"
       "rest \<noteq> [] \<longrightarrow> item_call (hd rest) \<noteq> [] \<and> (\<exists>msg. error (afterDrain rc w) = Some msg)"
    by blast
  have n: "newCalls w (afterDrain rc w) = logged True fin @ logged False (take 1 rest)"
    using l(2) by (rule newCalls_append)
  have ne: "rest \<noteq> []"
  proof
    assume "rest = []"
    with n assms(4) show False by (simp add: logged_True_no_failure)
  qed
  then have t: "take 1 rest = [hd rest]" by (cases rest) simp_all
  from runSync_pass [OF assms(1,2), of rc] obtain ok where
    p: "calls (runSync rc w) = calls (afterDrain rc w) @ [(ListCall, ok)]"
       "syncState (runSync rc w) = (if ok then idle else offline)"
       "idb_outbox (runSync rc w) = idb_outbox (afterDrain rc w)"
       "\<not> ok \<longrightarrow> idb_entries (runSync rc w) = idb_entries (afterDrain rc w)"
       "ok \<longrightarrow> error (runSync rc w) = error (afterDrain rc w) \<and>
          (\<exists>remoteEntries.
           fst (fetchEntries rc (server (afterDrain rc w))) = Inr remoteEntries \<and>
           idb_entries (runSync rc w) =
             idb_entries (putEntries (mergeEntries (idb_entries (afterDrain rc w)) remoteEntries)
                            (clearEntries (afterDrain rc w))))"
    by blast
  have c: "newCalls w (runSync rc w) = logged True fin @ logged False [hd rest] @ [(ListCall, ok)]"
    using l(2) p(1) t by (simp add: newCalls_def)
  have e: "error (afterDrain rc w) \<noteq> None" using l(4) ne by auto
  have r: "set rest \<subseteq> set (idb_outbox (runSync rc w))" using l(3) p(3) by simp
  from l(1) ne c r p(2,3,4,5) e show ?thesis by blast
qed


lemma worldC_run:
  "(CreateCall (payload1\<lparr>p_id := Some ''x0'', p_beans := []\<rparr>), False)
     \<in> set (newCalls worldC (afterDrain memServer worldC)) \<and>
   syncState (runSync memServer worldC) = idle \<and>
   newCalls worldC (runSync memServer worldC) =
     [(CreateCall payload1, True), (CreateCall (payload1\<lparr>p_id := Some ''x0'', p_beans := []\<rparr>), False),
      (ListCall, True)]"
  by code_simp

lemma worldD_run:
  "(CreateCall payload1, False) \<in> set (newCalls worldD (afterDrain downServer worldD)) \<and>
   syncState (runSync downServer worldD) = offline \<and>
   idb_entries (runSync downServer worldD) = [entry1] \<and>
   idb_outbox (runSync downServer worldD) = [item1] \<and>
   newCalls worldD (runSync downServer worldD) = [(CreateCall payload1, False), (ListCall, False)]"
  by code_simp

theorem failed_drain_still_reconciles_witness:
  "\<not> noToken worldC \<and> onLine worldC \<and> distinct (map o_id (idb_outbox worldC)) \<and>
   (CreateCall (payload1\<lparr>p_id := Some ''x0'', p_beans := []\<rparr>), False)
     \<in> set (newCalls worldC (afterDrain memServer worldC)) \<and>
   syncState (runSync memServer worldC) = idle \<and>
   error (runSync memServer worldC) \<noteq> None \<and>
   \<not> noToken worldD \<and> onLine worldD \<and> distinct (map o_id (idb_outbox worldD)) \<and>
   (CreateCall payload1, False) \<in> set (newCalls worldD (afterDrain downServer worldD)) \<and>
   syncState (runSync downServer worldD) = offline \<and>
   idb_entries (runSync downServer worldD) = idb_entries (afterDrain downServer worldD)"
proof -
  have c: "\<not> noToken worldC" "onLine worldC" "distinct (map o_id (idb_outbox worldC))"
    by (simp_all add: noToken_def worldC_def world5_def world0_def badItem_def item1_def item3_def)
  have d: "\<not> noToken worldD" "onLine worldD" "distinct (map o_id (idb_outbox worldD))"
    by (simp_all add: noToken_def worldD_def world0_def)
  note cf = worldC_run [THEN conjunct1]
  note df = worldD_run [THEN conjunct1]
  from failed_drain_still_reconciles [OF c cf] obtain ok where
    1: "syncState (runSync memServer worldC) = (if ok then idle else offline)"
       "ok \<longrightarrow> error (runSync memServer worldC) = error (afterDrain memServer worldC)
             \<and> error (afterDrain memServer worldC) \<noteq> None"
    by blast
  from 1(1) worldC_run have "ok" by (cases ok) simp_all
  with 1(2) have e: "error (runSync memServer worldC) \<noteq> None" by simp
  from failed_drain_still_reconciles [OF d df] obtain ok' where
    2: "syncState (runSync downServer worldD) = (if ok' then idle else offline)"
       "\<not> ok' \<longrightarrow> idb_entries (runSync downServer worldD) = idb_entries (afterDrain downServer worldD)"
    by blast
  from 2(1) worldD_run have "\<not> ok'" by (cases ok') simp_all
  with 2(2) have k: "idb_entries (runSync downServer worldD) = idb_entries (afterDrain downServer worldD)"
    by simp
  from c d cf df e k worldC_run worldD_run show ?thesis by blast
qed


section \<open>The replacement of the entries collection\<close>

theorem reconcile_replace_counterexample:
  "idb_entries worldR = [entry1] \<and>
   idb_entries (snd (syncFromServer memServer worldR)) = [remoteOther, entry1] \<and>
   idb_entries (syncFromServer_trace memServer worldR ! 2) = [] \<and>
   idb_entries (syncFromServer_trace memServer worldR ! 2) \<noteq> idb_entries worldR \<and>
   idb_entries (syncFromServer_trace memServer worldR ! 2)
     \<noteq> idb_entries (snd (syncFromServer memServer worldR))"
  by code_simp

text \<open>
  C2, as amended. The reconcile step replaces the entries collection in two store
  transactions, \<^verbatim>\<open>clearEntries()\<close> and then \<^verbatim>\<open>putEntries(merged)\<close>, with an
  \<^verbatim>\<open>await\<close> between them. Each transaction is atomic, so a read of the collection during
  the reconcile sees the complete pre-merge set, the complete post-merge set, or the
  empty collection in between; it never sees a partly written merged set. The trace
  ends in the state \<^verbatim>\<open>syncFromServer\<close> returns, and when the listing succeeds its third
  state has no entries.
\<close>

theorem reconcile_replace_in_two_transactions:
  "hd (syncFromServer_trace rc w) = w \<and>
   last (syncFromServer_trace rc w) = snd (syncFromServer rc w) \<and>
   (\<forall>s \<in> set (syncFromServer_trace rc w).
      idb_entries s = idb_entries w \<or> idb_entries s = [] \<or>
      idb_entries s = idb_entries (snd (syncFromServer rc w))) \<and>
   (isOK (fst (syncFromServer rc w)) \<longrightarrow>
      length (syncFromServer_trace rc w) = 4 \<and>
      idb_entries (syncFromServer_trace rc w ! 2) = [])"
proof -
  obtain r wr where f: "remote ListCall (fetchEntries rc) w = (r, wr)" by force
  have e: "idb_entries wr = idb_entries w" using remote_frame [OF f] by simp
  show ?thesis
  proof (cases r)
    case (Inl msg)
    with f e show ?thesis
      by (simp add: syncFromServer_trace_def syncFromServer_def isOK_def)
  next
    case (Inr remoteEntries)
    with f e show ?thesis
      by (simp add: syncFromServer_trace_def syncFromServer_def isOK_def clearEntries_def)
  qed
qed

lemma worldR_run:
  "isOK (fst (syncFromServer memServer worldR)) \<and>
   map idb_entries (syncFromServer_trace memServer worldR)
     = [[entry1], [entry1], [], [remoteOther, entry1]]"
  by code_simp

theorem reconcile_replace_in_two_transactions_witness:
  "isOK (fst (syncFromServer memServer worldR)) \<and>
   length (syncFromServer_trace memServer worldR) = 4 \<and>
   idb_entries (syncFromServer_trace memServer worldR ! 2) = [] \<and>
   map idb_entries (syncFromServer_trace memServer worldR)
     = [[entry1], [entry1], [], [remoteOther, entry1]]"
  using reconcile_replace_in_two_transactions [of memServer worldR] worldR_run
  by blast


section \<open>A sync request while a pass is running\<close>

lemma remote_fst: "fst (remote c f w) = fst (f (server w))"
  by (simp add: remote_def split: prod.splits)

lemma accepts_drainItem:
  assumes "accepts rc"
  shows "isOK (fst (drainItem rc item w))"
proof -
  obtain r1 w1 where s1: "replayCreate rc item w = (r1, w1)" by force
  have c: "isOK (fst (remote (CreateCall pl) (createEntry rc pl) w0))" for pl w0
    using assms by (simp add: remote_fst accepts_def)
  have u: "isOK (fst (remote (UpdateCall i pl) (updateEntry rc i pl) w0))" for i pl w0
    using assms by (simp add: remote_fst accepts_def)
  have d: "isOK (fst (remote (DeleteCall i) (deleteEntryRemote rc i) w0))" for i w0
    using assms by (simp add: remote_fst accepts_def)
  have 1: "isOK (fst (replayCreate rc item w0))" for w0
  proof (cases "payload item")
    case None
    then show ?thesis by (simp add: replayCreate_def isOK_def)
  next
    case (Some pl)
    obtain res w' where r: "remote (CreateCall pl) (createEntry rc pl) w0 = (res, w')" by force
    with c [of pl w0] obtain x where "res = Inr x" by (cases res) (simp_all add: isOK_def)
    with r Some show ?thesis by (simp add: replayCreate_def isOK_def)
  qed
  have 2: "isOK (fst (replayUpdate rc item w0))" for w0
  proof (cases "payload item")
    case None
    then show ?thesis by (simp add: replayUpdate_def isOK_def)
  next
    case (Some pl)
    obtain res w' where r: "remote (UpdateCall (entryId item) pl) (updateEntry rc (entryId item) pl) w0 = (res, w')"
      by force
    with u [of "entryId item" pl w0] obtain x where "res = Inr x" by (cases res) (simp_all add: isOK_def)
    with r Some show ?thesis by (simp add: replayUpdate_def isOK_def)
  qed
  have 3: "isOK (fst (replayDelete rc item w0))" for w0
    using d [of "entryId item" w0] by (simp add: replayDelete_def isOK_def)
  have a: "isOK (fst (andThen m f))" if "isOK (fst m)" "\<And>w0. isOK (fst (f w0))" for m
    and f :: "'a world \<Rightarrow> (string + unit) \<times> 'a world"
  proof (cases m)
    case (Pair r w1)
    with that(1) obtain x where "r = Inr x" by (cases r) (simp_all add: isOK_def)
    with Pair that(2) [of w1] show ?thesis by (simp add: andThen_def)
  qed
  show ?thesis unfolding drainItem_def
    by (intro a 1 2 3) (simp add: isOK_def)
qed

lemma accepts_drainStep:
  assumes "accepts rc"
  shows "\<exists>w'. drainStep rc (item # items) w = (items, w') \<and> calls w' = calls w @ logged True [item]"
proof -
  obtain res w' where s: "drainItem rc item w = (res, w')" by force
  from accepts_drainItem [OF assms, of item w] s obtain u where r: "res = Inr u"
    by (cases res) (simp_all add: isOK_def)
  from drainItem_log [OF s] r have "calls w' = calls w @ logged True [item]" by (simp add: isOK_def)
  with s r show ?thesis by simp
qed

lemma accepts_drain_calls:
  "accepts rc \<Longrightarrow> calls (drain rc items w) = calls w @ logged True items"
proof (induction items arbitrary: w)
  case Nil
  then show ?case by simp
next
  case (Cons item items)
  obtain res w' where s: "drainItem rc item w = (res, w')" by force
  from accepts_drainItem [OF Cons.prems, of item w] s obtain u where r: "res = Inr u"
    by (cases res) (simp_all add: isOK_def)
  from drainItem_log [OF s] r have "calls w' = calls w @ logged True [item]" by (simp add: isOK_def)
  with s r Cons.IH [OF Cons.prems, of w'] show ?case
    by (simp add: logged_Cons [of True item items])
qed

lemma twoDrains_calls:
  "accepts rc \<Longrightarrow>
   mset (calls (twoDrains rc sched itemsA itemsB w))
     = mset (calls w) + mset (logged True itemsA) + mset (logged True itemsB)"
proof (induction sched arbitrary: itemsA itemsB w)
  case Nil
  then show ?case by (simp add: accepts_drain_calls)
next
  case (Cons first sched)
  show ?case
  proof (cases first)
    case True
    show ?thesis
    proof (cases itemsA)
      case Nil
      with True Cons.IH [OF Cons.prems, of "[]" itemsB w] show ?thesis by simp
    next
      case (Cons item items)
      from accepts_drainStep [OF Cons.prems, of item items w] obtain w' where
        s: "drainStep rc (item # items) w = (items, w')" "calls w' = calls w @ logged True [item]"
        by blast
      from True Cons s Cons.IH [OF Cons.prems, of items itemsB w'] show ?thesis
        by (simp add: logged_Cons [of True item items])
    qed
  next
    case False
    show ?thesis
    proof (cases itemsB)
      case Nil
      with False Cons.IH [OF Cons.prems, of itemsA "[]" w] show ?thesis by simp
    next
      case (Cons item items)
      from accepts_drainStep [OF Cons.prems, of item items w] obtain w' where
        s: "drainStep rc (item # items) w = (items, w')" "calls w' = calls w @ logged True [item]"
        by blast
      from False Cons s Cons.IH [OF Cons.prems, of itemsA items w'] show ?thesis
        by (simp add: logged_Cons [of True item items])
    qed
  qed
qed

lemma twoDrains_single: "twoDrains rc sched items [] w = drain rc items w"
proof (induction sched arbitrary: items w)
  case Nil
  then show ?case by simp
next
  case (Cons first sched)
  then show ?case
    by (cases items) (auto split: prod.splits sum.splits)
qed

lemma runSync_ignores_syncState:
  "\<not> noToken w \<Longrightarrow> runSync rc (w\<lparr>syncState := s\<rparr>) = runSync rc w"
  by (auto simp: runSync_def noToken_def)

theorem second_request_drains_again_counterexample:
  "syncState ((worldQ [])\<lparr>syncState := syncing\<rparr>) = syncing \<and>
   newCalls ((worldQ [])\<lparr>syncState := syncing\<rparr>) (runSync memServer ((worldQ [])\<lparr>syncState := syncing\<rparr>))
     = [(CreateCall payload1, True), (UpdateCall ''x1'' (payload1\<lparr>p_notes := ''edited''\<rparr>), True),
        (ListCall, True)] \<and>
   refreshOutbox (worldQ []) = [item1, item2] \<and>
   newCalls (worldQ []) (twoSyncRequests memServer [True, False, True, False] (worldQ []))
     = [(CreateCall payload1, True), (CreateCall payload1, True),
        (UpdateCall ''x1'' (payload1\<lparr>p_notes := ''edited''\<rparr>), True),
        (UpdateCall ''x1'' (payload1\<lparr>p_notes := ''edited''\<rparr>), True)]"
  by code_simp

text \<open>
  C3, as amended. \<^verbatim>\<open>runSync\<close> has no reentrancy guard: with a token, its result does not
  depend on the sync state it is called in, so a request that arrives in state Syncing
  starts a pass like any other. When two requests are made back to back, both passes
  read the same outbox, and with a server that accepts every request each outbox item
  is replayed twice, once by each pass, under every schedule of the two drains: the
  requests sent are those of the sorted outbox, two times over.
\<close>

theorem second_request_drains_again:
  assumes "\<not> noToken w" and "onLine w" and "accepts rc"
  shows "runSync rc (w\<lparr>syncState := syncing\<rparr>) = runSync rc w \<and>
    mset (calls (twoSyncRequests rc sched w))
      = mset (calls w) + mset (logged True (refreshOutbox w)) + mset (logged True (refreshOutbox w))"
proof -
  define w2 where "w2 = w\<lparr>syncState := syncing, error := None\<rparr>"
  have r: "refreshOutbox w2 = refreshOutbox w" "calls w2 = calls w"
    by (simp_all add: w2_def refreshOutbox_def getOutboxItems_def)
  have "twoSyncRequests rc sched w = twoDrains rc sched (refreshOutbox w2) (refreshOutbox w2) w2"
    using assms(1,2) by (simp add: twoSyncRequests_def w2_def Let_def)
  with twoDrains_calls [OF assms(3), of sched "refreshOutbox w2" "refreshOutbox w2" w2] r
  have "mset (calls (twoSyncRequests rc sched w))
      = mset (calls w) + mset (logged True (refreshOutbox w)) + mset (logged True (refreshOutbox w))"
    by simp
  with runSync_ignores_syncState [OF assms(1), of rc syncing] show ?thesis by simp
qed

lemma accepts_okServer: "accepts okServer"
  by (simp add: accepts_def okServer_def createEntry_def updateEntry_def deleteEntryRemote_def
      ensureOk_def response_ok_def isOK_def)

lemma worldQ_run:
  "logged True (refreshOutbox (worldQ ()))
     = [(CreateCall payload1, True), (UpdateCall ''x1'' (payload1\<lparr>p_notes := ''edited''\<rparr>), True)] \<and>
   calls (worldQ ()) = []"
  by code_simp

theorem second_request_drains_again_witness:
  "\<not> noToken (worldQ ()) \<and> onLine (worldQ ()) \<and> accepts okServer \<and>
   runSync okServer ((worldQ ())\<lparr>syncState := syncing\<rparr>) = runSync okServer (worldQ ()) \<and>
   mset (calls (twoSyncRequests okServer [False, True] (worldQ ())))
     = mset [(CreateCall payload1, True), (UpdateCall ''x1'' (payload1\<lparr>p_notes := ''edited''\<rparr>), True)]
     + mset [(CreateCall payload1, True), (UpdateCall ''x1'' (payload1\<lparr>p_notes := ''edited''\<rparr>), True)]"
proof -
  have h: "\<not> noToken (worldQ ())" "onLine (worldQ ())"
    by (simp_all add: noToken_def worldQ_def world0_def)
  from second_request_drains_again [OF h accepts_okServer, of "[False, True]"] worldQ_run
  show ?thesis using h accepts_okServer by simp
qed


section \<open>The order of the listing\<close>

lemma listEntries_rows_desc:
  "sorted_wrt (\<lambda>a b. b \<le> a) (map r_brewed_at (listEntries_rows userID tbl))"
proof -
  have "sorted (map (\<lambda>row. - r_brewed_at row) (listEntries_rows userID tbl))"
    unfolding listEntries_rows_def by (rule sorted_sort_key)
  then show ?thesis by (simp add: sorted_map sorted_wrt_map)
qed

lemma listEntries_rows_mset:
  "mset (listEntries_rows userID tbl) = mset (filter (\<lambda>row. r_user_id row = userID) tbl)"
  by (simp add: listEntries_rows_def)

theorem store_list_unsorted_counterexample:
  "map BrewedAt (Store_List store2) = [''2024-01-01T08:00:00Z'', ''2024-02-01T08:00:00Z''] \<and>
   \<not> sorted_wrt (\<lambda>a b. b \<le> a) (map BrewedAt (Store_List store2))"
  by code_simp

text \<open>
  C8, as amended. The Postgres-backed \<^verbatim>\<open>listEntries\<close> returns the user's rows, each
  once, in non-increasing order of \<^verbatim>\<open>brewed_at\<close> (\<^verbatim>\<open>ORDER BY brewed_at DESC\<close>); the
  \<^verbatim>\<open>BrewedAt\<close> strings of the result are in non-increasing order too when formatting
  keeps the order of instants. The file-backed \<^verbatim>\<open>Store.List\<close> returns the entries as
  stored, and \<^verbatim>\<open>Store.Create\<close> appends at the end: its listing is in order of creation,
  not of \<^verbatim>\<open>brewedAt\<close>.
\<close>

theorem list_order:
  "(listEntries env userID tbl = Inr es \<longrightarrow>
      es = map (scanEntry env) (listEntries_rows userID tbl) \<and>
      ((\<forall>a b. a \<le> b \<longrightarrow> formatTime env a \<le> formatTime env b) \<longrightarrow>
         sorted_wrt (\<lambda>a b. b \<le> a) (map BrewedAt es))) \<and>
   sorted_wrt (\<lambda>a b. b \<le> a) (map r_brewed_at (listEntries_rows userID tbl)) \<and>
   mset (listEntries_rows userID tbl) = mset (filter (\<lambda>row. r_user_id row = userID) tbl) \<and>
   Store_List s = s \<and>
   (Store_Create now fresh saved input s = (Inr entry, s') \<longrightarrow>
      Store_List s' = Store_List s @ [entry])"
proof -
  have 1: "es = map (scanEntry env) (listEntries_rows userID tbl)"
    if "listEntries env userID tbl = Inr es"
    using that by (auto simp: listEntries_def split: if_splits)
  have 2: "sorted_wrt (\<lambda>a b. b \<le> a) (map BrewedAt es)"
    if l: "listEntries env userID tbl = Inr es"
      and m: "\<forall>a b. a \<le> b \<longrightarrow> formatTime env a \<le> formatTime env b"
  proof -
    have "sorted_wrt (\<lambda>a b. b \<le> a) (map (formatTime env) (map r_brewed_at (listEntries_rows userID tbl)))"
      using m by (intro sorted_wrt_map_mono [OF listEntries_rows_desc [of userID tbl]]) simp
    moreover have "map BrewedAt es = map (formatTime env) (map r_brewed_at (listEntries_rows userID tbl))"
      by (simp add: 1 [OF l] scanEntry_def)
    ultimately show ?thesis by simp
  qed
  have 3: "Store_List s' = Store_List s @ [entry]"
    if "Store_Create now fresh saved input s = (Inr entry, s')"
    using that
    by (auto simp: Store_Create_def Store_List_def Let_def split: sum.splits if_splits)
  from 1 2 3 listEntries_rows_desc [of userID tbl] listEntries_rows_mset [of userID tbl]
  show ?thesis by (simp add: Store_List_def)
qed

lemma list_run:
  "listEntries env1 ''u1'' [row1, row2] = Inr [scanEntry env1 row2, scanEntry env1 row1] \<and>
   map r_brewed_at (listEntries_rows ''u1'' [row1, row2]) = [20, 10] \<and>
   Store_Create ''2024-03-01T10:00:00Z'' ''f1'' True input1 []
     = (Inr \<lparr> ID = ''a1'', Beans = ''Kenya'', BrewMethod = ''drip'', Notes = [], Rating = 3,
               BrewedAt = ''2024-01-01T08:00:00Z'', CreatedAt = ''2024-03-01T10:00:00Z'',
               UpdatedAt = ''2024-03-01T10:00:00Z'' \<rparr>,
        [\<lparr> ID = ''a1'', Beans = ''Kenya'', BrewMethod = ''drip'', Notes = [], Rating = 3,
               BrewedAt = ''2024-01-01T08:00:00Z'', CreatedAt = ''2024-03-01T10:00:00Z'',
               UpdatedAt = ''2024-03-01T10:00:00Z'' \<rparr>])"
  by code_simp

theorem list_order_witness:
  "listEntries env1 ''u1'' [row1, row2] = Inr [scanEntry env1 row2, scanEntry env1 row1] \<and>
   sorted_wrt (\<lambda>a b. b \<le> a) (map r_brewed_at (listEntries_rows ''u1'' [row1, row2])) \<and>
   map r_brewed_at (listEntries_rows ''u1'' [row1, row2]) = [20, 10] \<and>
   Store_List (snd (Store_Create ''2024-03-01T10:00:00Z'' ''f1'' True input1 []))
     = Store_List [] @ [\<lparr> ID = ''a1'', Beans = ''Kenya'', BrewMethod = ''drip'', Notes = [], Rating = 3,
               BrewedAt = ''2024-01-01T08:00:00Z'', CreatedAt = ''2024-03-01T10:00:00Z'',
               UpdatedAt = ''2024-03-01T10:00:00Z'' \<rparr>]"
proof -
  note T = list_order [of env1 "''u1''" "[row1, row2]" "[scanEntry env1 row2, scanEntry env1 row1]"
      "[]" "''2024-03-01T10:00:00Z''" "''f1''" True input1 _ _]
  note r = list_run [THEN conjunct2, THEN conjunct2]
  from T [THEN conjunct2, THEN conjunct2, THEN conjunct2, THEN conjunct2, rule_format, OF r]
  have "Store_List (snd (Store_Create ''2024-03-01T10:00:00Z'' ''f1'' True input1 []))
     = Store_List [] @ [\<lparr> ID = ''a1'', Beans = ''Kenya'', BrewMethod = ''drip'', Notes = [], Rating = 3,
               BrewedAt = ''2024-01-01T08:00:00Z'', CreatedAt = ''2024-03-01T10:00:00Z'',
               UpdatedAt = ''2024-03-01T10:00:00Z'' \<rparr>]"
    using r by simp
  with T list_run show ?thesis by blast
qed


section \<open>An update keeps the creation time\<close>

lemma Store_Update_found:
  "Store_Update now saved i input s = (Found e, s') \<Longrightarrow>
   (\<exists>old. find (\<lambda>x. ID x = i) s = Some old \<and>
      e = old\<lparr>Beans := in_Beans input, BrewMethod := in_BrewMethod input,
               Notes := in_Notes input, Rating := in_Rating input,
               BrewedAt := in_BrewedAt input, UpdatedAt := now\<rparr>) \<and>
   map CreatedAt s' = map CreatedAt s \<and> map ID s' = map ID s"
proof (induction s arbitrary: s')
  case Nil
  then show ?case by simp
next
  case (Cons entry rest)
  show ?case
  proof (cases "ID entry = i")
    case True
    with Cons.prems show ?thesis by (auto simp: Let_def split: if_splits)
  next
    case False
    obtain res rest' where r: "Store_Update now saved i input rest = (res, rest')" by force
    with False Cons.prems have "res = Found e" "s' = entry # rest'" by simp_all
    with r Cons.IH [of rest'] False show ?thesis by simp
  qed
qed

lemma find_map_same:
  assumes "\<And>x. P (f x) = P x"
  shows "find P (map f xs) = map_option f (find P xs)"
  using assms by (induction xs) simp_all

lemma find_Some_if_filter: "filter P xs \<noteq> [] \<Longrightarrow> \<exists>x. find P xs = Some x"
  by (induction xs) (auto split: if_splits)

lemma updateEntry_go_found:
  assumes "updateEntry_go env userID raw input tbl = (Found e, tbl')"
  shows "\<exists>i old. normalizeID raw = Inr i \<and>
      find (\<lambda>row. r_user_id row = userID \<and> r_id row = i) tbl = Some old \<and>
      CreatedAt e = (if scan_ok env then formatTime env (r_created_at old)
                     else formatTime env (timeNow env)) \<and>
      ID e = i \<and> Beans e = in_Beans input \<and> BrewMethod e = in_BrewMethod input \<and>
      Notes e = in_Notes input \<and> Rating e = in_Rating input \<and>
      BrewedAt e = formatTime env (parseTime env (in_BrewedAt input)) \<and>
      UpdatedAt e = formatTime env (timeNow env) \<and>
      map r_created_at tbl' = map r_created_at tbl"
proof -
  from assms obtain i where n: "normalizeID raw = Inr i"
    by (cases "normalizeID raw") (simp_all add: updateEntry_go_def)
  define hit :: "Row \<Rightarrow> bool" where "hit = (\<lambda>row. r_user_id row = userID \<and> r_id row = i)"
  define upd :: "Row \<Rightarrow> Row" where "upd = (\<lambda>row. if hit row
       then row\<lparr>r_beans := in_Beans input, r_brew_method := in_BrewMethod input,
                r_notes := in_Notes input, r_rating := in_Rating input,
                r_brewed_at := parseTime env (in_BrewedAt input), r_updated_at := timeNow env\<rparr>
       else row)"
  have keep: "hit (upd row) = hit row" "r_created_at (upd row) = r_created_at row" for row
    by (simp_all add: upd_def hit_def)
  from assms n have ok: "exec_ok env" and ne: "filter hit tbl \<noteq> []"
    by (auto simp: updateEntry_go_def Let_def hit_def split: if_splits)
  from find_Some_if_filter [OF ne] obtain old where old: "find hit tbl = Some old" by blast
  have f': "find hit (map upd tbl) = Some (upd old)"
    using find_map_same [of hit upd tbl] keep(1) old by simp
  from assms n ok ne have t: "tbl' = map upd tbl"
    by (simp add: updateEntry_go_def Let_def hit_def upd_def)
  from assms n ok ne f' have e: "e = \<lparr> ID = i, Beans = in_Beans input,
        BrewMethod = in_BrewMethod input, Notes = in_Notes input,
        Rating = in_Rating input, BrewedAt = formatTime env (parseTime env (in_BrewedAt input)),
        CreatedAt = formatTime env (if scan_ok env then r_created_at (upd old) else timeNow env),
        UpdatedAt = formatTime env (timeNow env) \<rparr>"
    by (auto simp: updateEntry_go_def Let_def hit_def upd_def split: if_splits)
  have "map r_created_at tbl' = map r_created_at tbl" by (simp add: t keep(2) comp_def)
  with n old e keep(2) [of old] show ?thesis unfolding hit_def by auto
qed

theorem update_createdAt_counterexample:
  "find (\<lambda>row. r_user_id row = ''u1'' \<and> r_id row = ''a1'') [row1, row2] = Some row1 \<and>
   CreatedAt (scanEntry env1 row1) = ''100'' \<and>
   fst (updateEntry_go (env1\<lparr>scan_ok := False\<rparr>) ''u1'' ''a1'' input2 [row1, row2])
     = Found \<lparr> ID = ''a1'', Beans = ''Peru'', BrewMethod = ''espresso'', Notes = [], Rating = 5,
               BrewedAt = ''50'', CreatedAt = ''200'', UpdatedAt = ''200'' \<rparr> \<and>
   map r_created_at (snd (updateEntry_go (env1\<lparr>scan_ok := False\<rparr>) ''u1'' ''a1'' input2 [row1, row2]))
     = [100, 110]"
  by code_simp

text \<open>
  C9, as amended. A successful update returns the entry with the payload's fields and a
  new \<^verbatim>\<open>updatedAt\<close>, and never changes a stored creation time. \<^verbatim>\<open>Store.Update\<close> returns
  the \<^verbatim>\<open>CreatedAt\<close> of the entry it found (the first with that id). The Postgres-backed
  \<^verbatim>\<open>updateEntry\<close> returns the \<^verbatim>\<open>created_at\<close> of the updated row when its read-back
  (\<^verbatim>\<open>SELECT created_at\<close>) succeeds; when the read-back fails it falls back to the time of
  the update (\<^verbatim>\<open>created = updated\<close>), so the returned \<^verbatim>\<open>createdAt\<close> then differs from
  the stored one.
\<close>

theorem update_keeps_createdAt:
  "(Store_Update now saved i input s = (Found e, s') \<longrightarrow>
      (\<exists>old. find (\<lambda>x. ID x = i) s = Some old \<and> CreatedAt e = CreatedAt old \<and> ID e = ID old \<and>
         Beans e = in_Beans input \<and> BrewMethod e = in_BrewMethod input \<and>
         Notes e = in_Notes input \<and> Rating e = in_Rating input \<and>
         BrewedAt e = in_BrewedAt input \<and> UpdatedAt e = now) \<and>
      map CreatedAt s' = map CreatedAt s) \<and>
   (updateEntry_go env userID raw input tbl = (Found g, tbl') \<longrightarrow>
      (\<exists>j old. normalizeID raw = Inr j \<and>
         find (\<lambda>row. r_user_id row = userID \<and> r_id row = j) tbl = Some old \<and>
         CreatedAt g = (if scan_ok env then CreatedAt (scanEntry env old)
                        else formatTime env (timeNow env)) \<and>
         ID g = j \<and> Beans g = in_Beans input \<and> BrewMethod g = in_BrewMethod input \<and>
         Notes g = in_Notes input \<and> Rating g = in_Rating input \<and>
         BrewedAt g = formatTime env (parseTime env (in_BrewedAt input)) \<and>
         UpdatedAt g = formatTime env (timeNow env)) \<and>
      map r_created_at tbl' = map r_created_at tbl)"
proof -
  have 1: "(\<exists>old. find (\<lambda>x. ID x = i) s = Some old \<and> CreatedAt e = CreatedAt old \<and> ID e = ID old \<and>
         Beans e = in_Beans input \<and> BrewMethod e = in_BrewMethod input \<and>
         Notes e = in_Notes input \<and> Rating e = in_Rating input \<and>
         BrewedAt e = in_BrewedAt input \<and> UpdatedAt e = now) \<and>
      map CreatedAt s' = map CreatedAt s"
    if "Store_Update now saved i input s = (Found e, s')"
    using Store_Update_found [OF that] by auto
  have 2: "(\<exists>j old. normalizeID raw = Inr j \<and>
         find (\<lambda>row. r_user_id row = userID \<and> r_id row = j) tbl = Some old \<and>
         CreatedAt g = (if scan_ok env then CreatedAt (scanEntry env old)
                        else formatTime env (timeNow env)) \<and>
         ID g = j \<and> Beans g = in_Beans input \<and> BrewMethod g = in_BrewMethod input \<and>
         Notes g = in_Notes input \<and> Rating g = in_Rating input \<and>
         BrewedAt g = formatTime env (parseTime env (in_BrewedAt input)) \<and>
         UpdatedAt g = formatTime env (timeNow env)) \<and>
      map r_created_at tbl' = map r_created_at tbl"
    if "updateEntry_go env userID raw input tbl = (Found g, tbl')"
  proof -
    from updateEntry_go_found [OF that] obtain j old where
      f: "normalizeID raw = Inr j"
         "find (\<lambda>row. r_user_id row = userID \<and> r_id row = j) tbl = Some old"
         "CreatedAt g = (if scan_ok env then formatTime env (r_created_at old)
                         else formatTime env (timeNow env))"
         "ID g = j" "Beans g = in_Beans input" "BrewMethod g = in_BrewMethod input"
         "Notes g = in_Notes input" "Rating g = in_Rating input"
         "BrewedAt g = formatTime env (parseTime env (in_BrewedAt input))"
         "UpdatedAt g = formatTime env (timeNow env)"
         "map r_created_at tbl' = map r_created_at tbl"
      by blast
    have c: "CreatedAt (scanEntry env old) = formatTime env (r_created_at old)"
      by (simp add: scanEntry_def)
    show ?thesis
      apply (rule conjI)
       apply (rule exI [of _ j])
       apply (rule exI [of _ old])
      using f c apply simp
      using f(11) apply simp
      done
  qed
  from 1 2 show ?thesis by blast
qed

lemma update_run:
  "Store_Update ''2024-04-01T00:00:00Z'' True ''a1'' input2 store2
     = (Found \<lparr> ID = ''a1'', Beans = ''Peru'', BrewMethod = ''espresso'', Notes = [], Rating = 5,
                 BrewedAt = ''2024-02-01T08:00:00Z'', CreatedAt = ''2024-03-01T10:00:00Z'',
                 UpdatedAt = ''2024-04-01T00:00:00Z'' \<rparr>,
        [\<lparr> ID = ''a1'', Beans = ''Peru'', BrewMethod = ''espresso'', Notes = [], Rating = 5,
                 BrewedAt = ''2024-02-01T08:00:00Z'', CreatedAt = ''2024-03-01T10:00:00Z'',
                 UpdatedAt = ''2024-04-01T00:00:00Z'' \<rparr>,
         \<lparr> ID = ''a2'', Beans = ''Peru'', BrewMethod = ''espresso'', Notes = [], Rating = 5,
                 BrewedAt = ''2024-02-01T08:00:00Z'', CreatedAt = ''2024-03-01T10:00:01Z'',
                 UpdatedAt = ''2024-03-01T10:00:01Z'' \<rparr>]) \<and>
   map CreatedAt store2 = [''2024-03-01T10:00:00Z'', ''2024-03-01T10:00:01Z''] \<and>
   updateEntry_go env1 ''u1'' '' a1 '' input2 [row1, row2]
     = (Found \<lparr> ID = ''a1'', Beans = ''Peru'', BrewMethod = ''espresso'', Notes = [], Rating = 5,
                 BrewedAt = ''50'', CreatedAt = ''100'', UpdatedAt = ''200'' \<rparr>,
        [row1\<lparr>r_beans := ''Peru'', r_brew_method := ''espresso'', r_rating := 5,
               r_brewed_at := 50, r_updated_at := 200\<rparr>, row2]) \<and>
   CreatedAt (scanEntry env1 row1) = ''100''"
  by code_simp

theorem update_keeps_createdAt_witness:
  "Store_Update ''2024-04-01T00:00:00Z'' True ''a1'' input2 store2
     = (Found \<lparr> ID = ''a1'', Beans = ''Peru'', BrewMethod = ''espresso'', Notes = [], Rating = 5,
                 BrewedAt = ''2024-02-01T08:00:00Z'', CreatedAt = ''2024-03-01T10:00:00Z'',
                 UpdatedAt = ''2024-04-01T00:00:00Z'' \<rparr>,
        [\<lparr> ID = ''a1'', Beans = ''Peru'', BrewMethod = ''espresso'', Notes = [], Rating = 5,
                 BrewedAt = ''2024-02-01T08:00:00Z'', CreatedAt = ''2024-03-01T10:00:00Z'',
                 UpdatedAt = ''2024-04-01T00:00:00Z'' \<rparr>,
         \<lparr> ID = ''a2'', Beans = ''Peru'', BrewMethod = ''espresso'', Notes = [], Rating = 5,
                 BrewedAt = ''2024-02-01T08:00:00Z'', CreatedAt = ''2024-03-01T10:00:01Z'',
                 UpdatedAt = ''2024-03-01T10:00:01Z'' \<rparr>]) \<and>
   map CreatedAt (snd (Store_Update ''2024-04-01T00:00:00Z'' True ''a1'' input2 store2))
     = map CreatedAt store2 \<and>
   updateEntry_go env1 ''u1'' '' a1 '' input2 [row1, row2]
     = (Found \<lparr> ID = ''a1'', Beans = ''Peru'', BrewMethod = ''espresso'', Notes = [], Rating = 5,
                 BrewedAt = ''50'', CreatedAt = ''100'', UpdatedAt = ''200'' \<rparr>,
        [row1\<lparr>r_beans := ''Peru'', r_brew_method := ''espresso'', r_rating := 5,
               r_brewed_at := 50, r_updated_at := 200\<rparr>, row2]) \<and>
   map r_created_at (snd (updateEntry_go env1 ''u1'' '' a1 '' input2 [row1, row2]))
     = map r_created_at [row1, row2]"
proof -
  note a = update_run [THEN conjunct1]
  note b = update_run [THEN conjunct2, THEN conjunct2, THEN conjunct1]
  note T = update_keeps_createdAt [of "''2024-04-01T00:00:00Z''" True "''a1''" input2 store2 _ _
      env1 "''u1''" "'' a1 ''" "[row1, row2]" _ _]
  from T [THEN conjunct1, rule_format, OF a]
  have 1: "map CreatedAt (snd (Store_Update ''2024-04-01T00:00:00Z'' True ''a1'' input2 store2))
     = map CreatedAt store2" using a by simp
  from T [THEN conjunct2, rule_format, OF b]
  have 2: "map r_created_at (snd (updateEntry_go env1 ''u1'' '' a1 '' input2 [row1, row2]))
     = map r_created_at [row1, row2]" using b by simp
  from a b 1 2 show ?thesis by blast
qed


end
